theory Spec2Isabelle
  imports Complex_Main "HOL-Library.Log_Nat"
begin

chapter \<open>The trade logger: P&L calculator and ledger store\<close>

text \<open>
  A model of \<^verbatim>\<open>tradeLogger.py\<close>: the function \<^verbatim>\<open>calculate_pnl\<close>, the global \<^verbatim>\<open>settings\<close>, the
  table \<^verbatim>\<open>trades\<close>, and the five button handlers \<^verbatim>\<open>save_trade\<close>, \<^verbatim>\<open>load_history\<close>,
  \<^verbatim>\<open>delete_trade\<close>, \<^verbatim>\<open>calculate_profit\<close> and \<^verbatim>\<open>save_settings\<close>. The widgets are left out: a
  handler takes the texts of its entries as arguments and returns the new state, the dialog
  it shows, or the exception that leaves it.
\<close>

section \<open>Python floats: IEEE 754 binary64, round to nearest, ties to even\<close>

text \<open>
  Every number that reaches \<^verbatim>\<open>calculate_pnl\<close> in this program is a Python \<^verbatim>\<open>float\<close>: the
  prices and the size come from \<^verbatim>\<open>float(...)\<close>, the commission is the literal \<^verbatim>\<open>0.35\<close> or a
  \<^verbatim>\<open>float(...)\<close>, and the multiplier is \<^verbatim>\<open>1.0\<close>, \<^verbatim>\<open>0.0001\<close> or a small integer constant, which
  Python converts to a float when it multiplies a float by it. A finite double is a sign, a
  mantissa and an exponent, with value \<open>\<plusminus> m * 2 ^ e\<close>; a normal number has
  \<open>2 ^ 52 \<le> m < 2 ^ 53\<close> and \<open>- 1074 \<le> e \<le> 971\<close>, a subnormal one \<open>m < 2 ^ 52\<close> and
  \<open>e = - 1074\<close>, and the two zeros are \<open>Finite s 0 (- 1074)\<close>. An operation computes the
  exact result on integers and rounds it once; overflow gives an infinity, never an
  exception.
\<close>

datatype double = Finite bool int int | Infinity bool | NaN

definition round_half_even_div :: "int \<Rightarrow> int \<Rightarrow> int" where
  "round_half_even_div n d =
     (let q = n div d; r = n mod d
      in if 2 * r < d then q else if d < 2 * r then q + 1 else if even q then q else q + 1)"

text \<open>\<open>\<lfloor>log\<^sub>2 (n / d)\<rfloor>\<close> for positive \<open>n\<close> and \<open>d\<close>, on integers only.\<close>

definition ilog2_quot :: "int \<Rightarrow> int \<Rightarrow> int" where
  "ilog2_quot n d =
     (let e0 = bitlen n - bitlen d
      in if (if 0 \<le> e0 then d * 2 ^ nat e0 \<le> n else d \<le> n * 2 ^ nat (- e0))
         then e0 else e0 - 1)"

text \<open>
  The double nearest to \<open>\<plusminus> n / d\<close> (\<open>0 \<le> n\<close>, \<open>0 < d\<close>): the unit in the last place is
  \<open>2 ^ t\<close>, the quotient is rounded to a multiple of it, a mantissa that reaches \<open>2 ^ 53\<close>
  moves to the next exponent, and a result beyond the largest double is an infinity.
\<close>

definition round_quot :: "bool \<Rightarrow> int \<Rightarrow> int \<Rightarrow> double" where
  "round_quot s n d =
     (if n = 0 then Finite s 0 (- 1074)
      else let t = max (ilog2_quot n d) (- 1022) - 52;
               m = (if 0 \<le> t then round_half_even_div n (d * 2 ^ nat t)
                    else round_half_even_div (n * 2 ^ nat (- t)) d);
               t' = (if m = 2 ^ 53 then t + 1 else t);
               m' = (if m = 2 ^ 53 then 2 ^ 52 else m)
           in if 971 < t' then Infinity s else Finite s m' t')"

definition round_dyadic :: "bool \<Rightarrow> int \<Rightarrow> int \<Rightarrow> double" where
  "round_dyadic s m e =
     (if 0 \<le> e then round_quot s (m * 2 ^ nat e) 1 else round_quot s m (2 ^ nat (- e)))"

text \<open>
  The decimal number \<open>\<plusminus> n * 10 ^ k\<close>, correctly rounded, as CPython reads a literal or a
  text. \<open>flt n k\<close> is the same with a signed \<open>n\<close>: \<open>flt 35 (- 2)\<close> is the float \<^verbatim>\<open>0.35\<close>.
\<close>

definition decimal :: "bool \<Rightarrow> int \<Rightarrow> int \<Rightarrow> double" where
  "decimal s n k =
     (if 0 \<le> k then round_quot s (n * 10 ^ nat k) 1 else round_quot s n (10 ^ nat (- k)))"

definition flt :: "int \<Rightarrow> int \<Rightarrow> double" where
  "flt n k = decimal (n < 0) \<bar>n\<bar> k"

text \<open>
  The conversion Python applies to the \<^verbatim>\<open>int\<close> operand of a product with a float. (It raises
  \<^verbatim>\<open>OverflowError\<close> for an integer beyond the largest double; the integers of this program are
  the constants 100000 and the multipliers of the table.)
\<close>

definition float_of_int :: "int \<Rightarrow> double" where
  "float_of_int i = round_quot (i < 0) \<bar>i\<bar> 1"

definition signed :: "bool \<Rightarrow> int \<Rightarrow> int" where
  "signed s m = (if s then - m else m)"

fun fneg :: "double \<Rightarrow> double" where
  "fneg NaN = NaN"
| "fneg (Infinity s) = Infinity (\<not> s)"
| "fneg (Finite s m e) = Finite (\<not> s) m e"

fun fadd :: "double \<Rightarrow> double \<Rightarrow> double" where
  "fadd NaN _ = NaN"
| "fadd _ NaN = NaN"
| "fadd (Infinity s1) (Infinity s2) = (if s1 = s2 then Infinity s1 else NaN)"
| "fadd (Infinity s1) (Finite s2 m2 e2) = Infinity s1"
| "fadd (Finite s1 m1 e1) (Infinity s2) = Infinity s2"
| "fadd (Finite s1 m1 e1) (Finite s2 m2 e2) =
     (let e = min e1 e2;
          v = signed s1 (m1 * 2 ^ nat (e1 - e)) + signed s2 (m2 * 2 ^ nat (e2 - e))
      in if v = 0 then Finite (s1 \<and> s2) 0 (- 1074) else round_dyadic (v < 0) \<bar>v\<bar> e)"

fun fmul :: "double \<Rightarrow> double \<Rightarrow> double" where
  "fmul NaN _ = NaN"
| "fmul _ NaN = NaN"
| "fmul (Infinity s1) (Infinity s2) = Infinity (s1 \<noteq> s2)"
| "fmul (Infinity s1) (Finite s2 m2 e2) = (if m2 = 0 then NaN else Infinity (s1 \<noteq> s2))"
| "fmul (Finite s1 m1 e1) (Infinity s2) = (if m1 = 0 then NaN else Infinity (s1 \<noteq> s2))"
| "fmul (Finite s1 m1 e1) (Finite s2 m2 e2) = round_dyadic (s1 \<noteq> s2) (m1 * m2) (e1 + e2)"

instantiation double :: "{plus, minus, times, uminus}"
begin

definition uminus_double :: "double \<Rightarrow> double" where
  "- a = fneg a"

definition plus_double :: "double \<Rightarrow> double \<Rightarrow> double" where
  "a + b = fadd a b"

definition minus_double :: "double \<Rightarrow> double \<Rightarrow> double" where
  "a - b = fadd a (fneg b)"

definition times_double :: "double \<Rightarrow> double \<Rightarrow> double" where
  "a * b = fmul a b"

instance ..

end

text \<open>Python's \<^verbatim>\<open>==\<close> on floats: a NaN equals nothing, the two zeros are equal.\<close>

fun float_eq :: "double \<Rightarrow> double \<Rightarrow> bool" where
  "float_eq (Finite s1 m1 e1) (Finite s2 m2 e2) =
     (let e = min e1 e2
      in signed s1 (m1 * 2 ^ nat (e1 - e)) = signed s2 (m2 * 2 ^ nat (e2 - e)))"
| "float_eq (Infinity s1) (Infinity s2) = (s1 = s2)"
| "float_eq _ _ = False"

fun is_nan :: "double \<Rightarrow> bool" where
  "is_nan NaN = True"
| "is_nan _ = False"

fun is_zero :: "double \<Rightarrow> bool" where
  "is_zero (Finite s m e) = (m = 0)"
| "is_zero _ = False"

text \<open>The doubles in their standard form: normal, subnormal or zero, infinite, or NaN.\<close>

fun is_double :: "double \<Rightarrow> bool" where
  "is_double (Finite s m e) =
     (0 \<le> m \<and> m < 2 ^ 53 \<and> - 1074 \<le> e \<and> e \<le> 971 \<and> (e = - 1074 \<or> 2 ^ 52 \<le> m))"
| "is_double _ = True"

text \<open>The exact value of a finite double.\<close>

fun value_of :: "double \<Rightarrow> rat option" where
  "value_of (Finite s m e) =
     Some (if 0 \<le> e then of_int (signed s m * 2 ^ nat e) else of_int (signed s m) / 2 ^ nat (- e))"
| "value_of _ = None"

section \<open>Python strings\<close>

text \<open>
  A string is a list of 8-bit characters; the model covers ASCII text, on which \<^verbatim>\<open>str.lower\<close>
  and \<^verbatim>\<open>str.upper\<close> change the letters \<open>A\<close>..\<open>Z\<close> and \<open>a\<close>..\<open>z\<close> and leave every other
  character as it is.
\<close>

definition lower_char :: "char \<Rightarrow> char" where
  "lower_char c = (let n = of_char c :: nat in if 65 \<le> n \<and> n \<le> 90 then char_of (n + 32) else c)"

definition upper_char :: "char \<Rightarrow> char" where
  "upper_char c = (let n = of_char c :: nat in if 97 \<le> n \<and> n \<le> 122 then char_of (n - 32) else c)"

definition lower :: "string \<Rightarrow> string" where
  "lower s = map lower_char s"

definition upper :: "string \<Rightarrow> string" where
  "upper s = map upper_char s"

section \<open>The builtin \<^verbatim>\<open>float(str)\<close>\<close>

datatype py_error = ValueError string | KeyError string

definition is_space :: "char \<Rightarrow> bool" where
  "is_space c = (let n = of_char c :: nat in (9 \<le> n \<and> n \<le> 13) \<or> n = 32)"

definition strip :: "string \<Rightarrow> string" where
  "strip s = rev (dropWhile is_space (rev (dropWhile is_space s)))"

definition is_digit :: "char \<Rightarrow> bool" where
  "is_digit c = (let n = of_char c :: nat in 48 \<le> n \<and> n \<le> 57)"

definition digit_val :: "char \<Rightarrow> int" where
  "digit_val c = int (of_char c) - 48"

text \<open>
  \<^verbatim>\<open>digitpart ::= digit (["_"] digit)*\<close>: the digits read and the rest of the input. An
  underscore is skipped only between two digits.
\<close>

fun more_digits :: "string \<Rightarrow> int list \<times> string" where
  "more_digits [] = ([], [])"
| "more_digits (c # cs) =
     (if is_digit c then (let (ds, r) = more_digits cs in (digit_val c # ds, r))
      else if c = CHR ''_'' \<and> (case cs of d # _ \<Rightarrow> is_digit d | [] \<Rightarrow> False) then more_digits cs
      else ([], c # cs))"

definition digitpart :: "string \<Rightarrow> (int list \<times> string) option" where
  "digitpart s =
     (case s of
        [] \<Rightarrow> None
      | c # cs \<Rightarrow> if is_digit c then Some (more_digits s) else None)"

definition digits_value :: "int list \<Rightarrow> int" where
  "digits_value ds = foldl (\<lambda>a d. 10 * a + d) 0 ds"

definition parse_sign :: "string \<Rightarrow> bool \<times> string" where
  "parse_sign s =
     (case s of
        [] \<Rightarrow> (False, [])
      | c # cs \<Rightarrow> if c = CHR ''-'' then (True, cs) else if c = CHR ''+'' then (False, cs)
                 else (False, s))"

text \<open>\<^verbatim>\<open>exponent ::= ("e" | "E") [sign] digitpart\<close>, up to the end of the input.\<close>

definition parse_exponent :: "string \<Rightarrow> int option" where
  "parse_exponent s =
     (case s of
        [] \<Rightarrow> Some 0
      | c # cs \<Rightarrow>
          if c = CHR ''e'' \<or> c = CHR ''E'' then
            (let (neg, r) = parse_sign cs
             in case digitpart r of
                  Some (ds, []) \<Rightarrow> Some (signed neg (digits_value ds))
                | _ \<Rightarrow> None)
          else None)"

definition finish_number :: "bool \<Rightarrow> int list \<Rightarrow> int list \<Rightarrow> string \<Rightarrow> double option" where
  "finish_number neg ip fp r =
     (case parse_exponent r of
        None \<Rightarrow> None
      | Some ex \<Rightarrow> Some (decimal neg (digits_value (ip @ fp)) (ex - int (length fp))))"

text \<open>\<^verbatim>\<open>number ::= [digitpart] "." digitpart | digitpart ["."]\<close>, then the exponent.\<close>

definition parse_number :: "bool \<Rightarrow> string \<Rightarrow> double option" where
  "parse_number neg s =
     (case digitpart s of
        Some (ip, r) \<Rightarrow>
          (case r of
             [] \<Rightarrow> finish_number neg ip [] []
           | c # r' \<Rightarrow>
               if c = CHR ''.'' then
                 (case digitpart r' of
                    Some (fp, r'') \<Rightarrow> finish_number neg ip fp r''
                  | None \<Rightarrow> finish_number neg ip [] r')
               else finish_number neg ip [] r)
      | None \<Rightarrow>
          (case s of
             [] \<Rightarrow> None
           | c # r' \<Rightarrow>
               if c = CHR ''.'' then
                 (case digitpart r' of
                    Some (fp, r'') \<Rightarrow> finish_number neg [] fp r''
                  | None \<Rightarrow> None)
               else None))"

text \<open>
  \<^verbatim>\<open>float(s)\<close>: white space around the text is dropped (space, tab, line feed, vertical tab,
  form feed, carriage return), then a sign and \<^verbatim>\<open>inf\<close>, \<^verbatim>\<open>infinity\<close> or \<^verbatim>\<open>nan\<close> in any letter
  case, or a decimal number. Anything else, the empty text too, raises \<^verbatim>\<open>ValueError\<close> (which
  names the text).
\<close>

definition py_float :: "string \<Rightarrow> py_error + double" where
  "py_float s =
     (let (neg, body) = parse_sign (strip s); low = lower body
      in if low = ''inf'' \<or> low = ''infinity'' then Inr (Infinity neg)
         else if low = ''nan'' then Inr NaN
         else case parse_number neg body of
                Some d \<Rightarrow> Inr d
              | None \<Rightarrow> Inl (ValueError s))"

section \<open>Settings and the P&L calculator\<close>

record settings =
  commission_per_contract :: double
  text_size :: int
  dark_mode :: bool
  screenshot_folder :: string

definition default_settings :: settings where
  "default_settings =
     \<lparr>commission_per_contract = flt 35 (- 2), text_size = 12, dark_mode = False,
      screenshot_folder = []\<rparr>"

definition calculate_pnl ::
  "double \<Rightarrow> double \<Rightarrow> double \<Rightarrow> string \<Rightarrow> double \<Rightarrow> double \<Rightarrow> double" where
  "calculate_pnl entry exit size' direction commission multiplier =
     (let gross = (if lower direction = ''long'' then (exit - entry) * size' * multiplier
                   else (entry - exit) * size' * multiplier);
          net = gross - commission * size'
      in net)"

text \<open>The default value \<^verbatim>\<open>1.0\<close> of the parameter \<^verbatim>\<open>multiplier\<close>.\<close>

definition default_multiplier :: double where
  "default_multiplier = flt 1 0"

section \<open>The table \<^verbatim>\<open>trades\<close>\<close>

text \<open>
  The table is the list of its rows, in the order of their insertion. A row holds the values
  bound by the \<^verbatim>\<open>INSERT\<close> as they are: the texts of the form and the five floats; the column
  \<^verbatim>\<open>c\<close> is the field \<open>trade_c\<close>. The column \<^verbatim>\<open>id INTEGER PRIMARY KEY\<close> is filled by SQLite: 1
  in an empty table, the largest id plus 1 otherwise (ids are unbounded integers here; SQLite
  does so below \<open>2 ^ 63 - 1\<close>).
\<close>

record trade =
  trade_id :: int
  trade_date :: string
  trade_time :: string
  trade_instrument :: string
  trade_session :: string
  trade_account_size :: string
  trade_setup_name :: string
  trade_entry_price :: double
  trade_exit_price :: double
  trade_stop_loss :: string
  trade_position_size :: double
  trade_direction :: string
  trade_pnl_net :: double
  trade_commission :: double
  trade_context :: string
  trade_bias :: string
  trade_duration :: string
  trade_mental_state_pre :: string
  trade_mental_state_during :: string
  trade_execution_quality :: string
  trade_distractions :: string

text \<open>The texts of the eighteen entries of the Trade Tracker tab (\<^verbatim>\<open>data\<close> in the source).\<close>

record trade_form =
  Date :: string
  Time :: string
  Instrument :: string
  Session :: string
  Account_Size :: string
  Setup_Name :: string
  Entry_Price :: string
  Exit_Price :: string
  Stop_Loss :: string
  Position_Size :: string
  Direction :: string
  Context :: string
  Bias :: string
  Duration :: string
  Mental_State_Pre :: string
  Mental_State_During :: string
  Execution_Quality :: string
  Distractions :: string

type_synonym summary = "int \<times> string \<times> string \<times> double \<times> double"

datatype message = Trade_saved double | Settings_updated | Invalid_commission

datatype dialog = Showinfo string message | Showerror string message

datatype label_text = Blank | Net_pnl_text double double | Error_text py_error

record app =
  trades :: "trade list"
  settings :: settings
  history_tree :: "summary list"
  result_label :: label_text

definition next_id :: "trade list \<Rightarrow> int" where
  "next_id tbl = (if tbl = [] then 1 else Max (set (map trade_id tbl)) + 1)"

text \<open>
  The \<^verbatim>\<open>INSERT\<close> of \<^verbatim>\<open>save_trade\<close>, with the twenty values it binds: the new row gets the next id
  and goes to the end of the table.
\<close>

definition insert_trade ::
  "trade list \<Rightarrow> trade_form \<Rightarrow> double \<Rightarrow> double \<Rightarrow> double \<Rightarrow> string \<Rightarrow> double \<Rightarrow> double \<Rightarrow>
   trade list" where
  "insert_trade tbl data entry exit size' direction pnl_net commission =
     tbl @
     [\<lparr>trade_id = next_id tbl, trade_date = Date data, trade_time = Time data,
       trade_instrument = Instrument data, trade_session = Session data,
       trade_account_size = Account_Size data, trade_setup_name = Setup_Name data,
       trade_entry_price = entry, trade_exit_price = exit, trade_stop_loss = Stop_Loss data,
       trade_position_size = size', trade_direction = direction, trade_pnl_net = pnl_net,
       trade_commission = commission, trade_context = Context data, trade_bias = Bias data,
       trade_duration = Duration data, trade_mental_state_pre = Mental_State_Pre data,
       trade_mental_state_during = Mental_State_During data,
       trade_execution_quality = Execution_Quality data,
       trade_distractions = Distractions data\<rparr>]"

text \<open>
  The handler of the button Save Trade. It has no \<^verbatim>\<open>try\<close>: a \<^verbatim>\<open>ValueError\<close> of \<^verbatim>\<open>float\<close> leaves
  the handler (\<open>Inl\<close>), before anything is stored and without any dialog.
\<close>

definition save_trade :: "app \<Rightarrow> trade_form \<Rightarrow> py_error + app \<times> dialog" where
  "save_trade st data =
     (case py_float (Entry_Price data) of
        Inl e \<Rightarrow> Inl e
      | Inr entry \<Rightarrow>
     (case py_float (Exit_Price data) of
        Inl e \<Rightarrow> Inl e
      | Inr exit \<Rightarrow>
     (case py_float (Position_Size data) of
        Inl e \<Rightarrow> Inl e
      | Inr size' \<Rightarrow>
          let direction = Direction data;
              commission = commission_per_contract (settings st);
              pnl_net = calculate_pnl entry exit size' direction commission default_multiplier
          in Inr (st\<lparr>trades := insert_trade (trades st) data entry exit size' direction pnl_net
                                  commission\<rparr>,
                  Showinfo ''Saved'' (Trade_saved pnl_net)))))"

definition summary_of :: "trade \<Rightarrow> summary" where
  "summary_of r = (trade_id r, trade_date r, trade_instrument r, trade_pnl_net r, trade_commission r)"

text \<open>\<^verbatim>\<open>SELECT id, date, instrument, pnl_net, commission FROM trades ORDER BY id DESC\<close>\<close>

definition select_history :: "trade list \<Rightarrow> summary list" where
  "select_history tbl = map summary_of (rev (sort_key trade_id tbl))"

definition load_history :: "app \<Rightarrow> app" where
  "load_history st = st\<lparr>history_tree := select_history (trades st)\<rparr>"

text \<open>\<open>selected\<close> is the selection of the tree: the ids of the selected lines.\<close>

definition delete_trade :: "app \<Rightarrow> int list \<Rightarrow> app" where
  "delete_trade st selected =
     (case selected of
        [] \<Rightarrow> st
      | i # _ \<Rightarrow> load_history (st\<lparr>trades := filter (\<lambda>r. trade_id r \<noteq> i) (trades st)\<rparr>))"

section \<open>The Profit Calculator and the settings form\<close>

definition multipliers :: "string \<rightharpoonup> int" where
  "multipliers =
     map_of [(''NQ1'', 20), (''ES1'', 50), (''PL1'', 50), (''CL1'', 1000), (''GC1'', 100),
             (''PA1'', 100)]"

text \<open>\<^verbatim>\<open>self.calc_entries[k].get()\<close> and \<^verbatim>\<open>float(self.calc_entries[k].get())\<close>\<close>

definition entry_get :: "(string \<rightharpoonup> string) \<Rightarrow> string \<Rightarrow> py_error + string" where
  "entry_get calc_entries k =
     (case calc_entries k of None \<Rightarrow> Inl (KeyError k) | Some v \<Rightarrow> Inr v)"

definition entry_float :: "(string \<rightharpoonup> string) \<Rightarrow> string \<Rightarrow> py_error + double" where
  "entry_float calc_entries k =
     (case entry_get calc_entries k of Inl e \<Rightarrow> Inl e | Inr v \<Rightarrow> py_float v)"

text \<open>The body of the \<^verbatim>\<open>try\<close> of \<^verbatim>\<open>calculate_profit\<close>, up to the value of \<^verbatim>\<open>pnl\<close>.\<close>

definition profit_pnl :: "string \<Rightarrow> (string \<rightharpoonup> string) \<Rightarrow> double \<Rightarrow> py_error + double" where
  "profit_pnl choice calc_entries commission =
     (if choice = ''Stocks'' then
        (case entry_float calc_entries ''Position Size'' of
           Inl e \<Rightarrow> Inl e
         | Inr size' \<Rightarrow>
        (case entry_float calc_entries ''Entry Price'' of
           Inl e \<Rightarrow> Inl e
         | Inr entry \<Rightarrow>
        (case entry_float calc_entries ''Exit Price'' of
           Inl e \<Rightarrow> Inl e
         | Inr exit \<Rightarrow>
             Inr (calculate_pnl entry exit size' ''long'' commission default_multiplier))))
      else if choice = ''Forex'' then
        (case entry_get calc_entries ''Direction (Long/Short)'' of
           Inl e \<Rightarrow> Inl e
         | Inr direction \<Rightarrow>
        (case entry_float calc_entries ''Trade Size (lots)'' of
           Inl e \<Rightarrow> Inl e
         | Inr lots \<Rightarrow>
        (case entry_float calc_entries ''Entry Price'' of
           Inl e \<Rightarrow> Inl e
         | Inr entry \<Rightarrow>
        (case entry_float calc_entries ''Exit Price'' of
           Inl e \<Rightarrow> Inl e
         | Inr exit \<Rightarrow>
             Inr (calculate_pnl entry exit (lots * float_of_int 100000) direction commission
                    (flt 1 (- 4)))))))
      else
        (case entry_get calc_entries ''Instrument'' of
           Inl e \<Rightarrow> Inl e
         | Inr v \<Rightarrow>
        (case entry_get calc_entries ''Direction (Long/Short)'' of
           Inl e \<Rightarrow> Inl e
         | Inr direction \<Rightarrow>
        (case entry_float calc_entries ''Contracts'' of
           Inl e \<Rightarrow> Inl e
         | Inr size' \<Rightarrow>
        (case entry_float calc_entries ''Entry Price'' of
           Inl e \<Rightarrow> Inl e
         | Inr entry \<Rightarrow>
        (case entry_float calc_entries ''Exit Price'' of
           Inl e \<Rightarrow> Inl e
         | Inr exit \<Rightarrow>
             let instrument = upper v;
                 multiplier = (case multipliers instrument of Some m \<Rightarrow> m | None \<Rightarrow> 1)
             in Inr (calculate_pnl entry exit size' direction commission
                       (float_of_int multiplier))))))))"

definition calculate_profit :: "app \<Rightarrow> string \<Rightarrow> (string \<rightharpoonup> string) \<Rightarrow> app" where
  "calculate_profit st choice calc_entries =
     (let commission = commission_per_contract (settings st)
      in case profit_pnl choice calc_entries commission of
           Inr pnl \<Rightarrow> st\<lparr>result_label := Net_pnl_text pnl commission\<rparr>
         | Inl e \<Rightarrow> st\<lparr>result_label := Error_text e\<rparr>)"

definition save_settings :: "app \<Rightarrow> string \<Rightarrow> app \<times> dialog" where
  "save_settings st text =
     (case py_float text of
        Inr v \<Rightarrow> (st\<lparr>settings := (settings st)\<lparr>commission_per_contract := v\<rparr>\<rparr>,
                  Showinfo ''Saved'' Settings_updated)
      | Inl e \<Rightarrow> (st, Showerror ''Error'' Invalid_commission))"

section \<open>The event loop\<close>

datatype event =
    Save_trade trade_form
  | Refresh
  | Delete_selected "int list"
  | Calculate_profit string "string \<rightharpoonup> string"
  | Save_settings string

text \<open>
  One button press. An exception that leaves \<^verbatim>\<open>save_trade\<close> is reported by Tk on the error
  stream and the loop goes on with the state as it was.
\<close>

fun step :: "app \<Rightarrow> event \<Rightarrow> app" where
  "step st (Save_trade data) = (case save_trade st data of Inl e \<Rightarrow> st | Inr (st', d) \<Rightarrow> st')"
| "step st Refresh = load_history st"
| "step st (Delete_selected selected) = delete_trade st selected"
| "step st (Calculate_profit choice calc_entries) = calculate_profit st choice calc_entries"
| "step st (Save_settings text) = fst (save_settings st text)"

definition run :: "app \<Rightarrow> event list \<Rightarrow> app" where
  "run st evs = foldl step st evs"

text \<open>The state after start-up, on a database file that holds the rows \<open>tbl\<close>.\<close>

definition init_app :: "trade list \<Rightarrow> app" where
  "init_app tbl =
     \<lparr>trades = tbl, settings = default_settings, history_tree = select_history tbl,
      result_label = Blank\<rparr>"

section \<open>Mirror images\<close>

text \<open>
  Two floats are mirror images when one is the negation of the other; two zeros are mirror
  images whatever their signs.
\<close>

definition mirror :: "double \<Rightarrow> double \<Rightarrow> bool" where
  "mirror a b = (b = fneg a \<or> is_zero a \<and> is_zero b)"

section \<open>The invariant of the stored P&L, and example inputs\<close>

text \<open>
  The stored net P&L of a row is what the calculator returns for the row's own entry price,
  exit price, position size, direction and commission, with the default multiplier.
\<close>

definition pnl_invariant :: "trade \<Rightarrow> bool" where
  "pnl_invariant r =
     (trade_pnl_net r =
      calculate_pnl (trade_entry_price r) (trade_exit_price r) (trade_position_size r)
        (trade_direction r) (trade_commission r) default_multiplier)"

text \<open>A filled Trade Tracker form: two contracts of ES1, long from 4000 to 4010.\<close>

definition example_form :: trade_form where
  "example_form =
     \<lparr>Date = ''2024-01-02'', Time = ''09:30'', Instrument = ''ES1'', Session = ''NY'',
      Account_Size = ''50000'', Setup_Name = ''breakout'', Entry_Price = ''4000'',
      Exit_Price = ''4010'', Stop_Loss = ''3990'', Position_Size = ''2'', Direction = ''Long'',
      Context = ''trend day'', Bias = ''up'', Duration = ''15m'', Mental_State_Pre = ''calm'',
      Mental_State_During = ''calm'', Execution_Quality = ''good'', Distractions = ''none''\<rparr>"

text \<open>The row that saving the example form into an empty table stores, and the state after.\<close>

definition example_row :: trade where
  "example_row =
     \<lparr>trade_id = 1, trade_date = ''2024-01-02'', trade_time = ''09:30'',
      trade_instrument = ''ES1'', trade_session = ''NY'', trade_account_size = ''50000'',
      trade_setup_name = ''breakout'', trade_entry_price = flt 4000 0,
      trade_exit_price = flt 4010 0, trade_stop_loss = ''3990'', trade_position_size = flt 2 0,
      trade_direction = ''Long'', trade_pnl_net = flt 193 (- 1), trade_commission = flt 35 (- 2),
      trade_context = ''trend day'', trade_bias = ''up'', trade_duration = ''15m'',
      trade_mental_state_pre = ''calm'', trade_mental_state_during = ''calm'',
      trade_execution_quality = ''good'', trade_distractions = ''none''\<rparr>"

definition example_saved :: app where
  "example_saved = (init_app [])\<lparr>trades := [example_row]\<rparr>"

text \<open>The entries of the Profit Calculator for the same trade as a future.\<close>

definition example_futures :: "string \<rightharpoonup> string" where
  "example_futures =
     map_of [(''Instrument'', ''es1''), (''Direction (Long/Short)'', ''Long''),
             (''Contracts'', ''2''), (''Entry Price'', ''4000''), (''Exit Price'', ''4010'')]"

section \<open>Facts about the float operations\<close>

lemma lower_Long: "lower ''Long'' = ''long''"
  by code_simp

lemma lower_Short: "lower ''Short'' \<noteq> ''long''"
  by code_simp

lemma round_quot_neg: "round_quot (\<not> s) n d = fneg (round_quot s n d)"
  by (simp add: round_quot_def Let_def)

lemma round_dyadic_neg: "round_dyadic (\<not> s) m e = fneg (round_dyadic s m e)"
  by (simp add: round_dyadic_def round_quot_neg)

lemma round_dyadic_zero: "is_zero (round_dyadic s 0 e)"
  by (simp add: round_dyadic_def round_quot_def)

lemma fmul_fneg: "fmul (fneg a) b = fneg (fmul a b)"
proof (cases a; cases b)
  fix s1 m1 e1 s2 m2 e2
  assume "a = Finite s1 m1 e1" "b = Finite s2 m2 e2"
  moreover have "((\<not> s1) \<noteq> s2) = (\<not> (s1 \<noteq> s2))" by auto
  ultimately show ?thesis by (simp only: fneg.simps fmul.simps round_dyadic_neg)
qed auto

lemma signed_neg: "signed (\<not> s) m = - signed s m"
  by (simp add: signed_def)

text \<open>Swapping the operands of a subtraction gives the mirror image.\<close>

lemma fsub_swap: "mirror (a - b) (b - a)"
proof (cases a; cases b)
  fix s1 m1 e1 s2 m2 e2
  assume ab: "a = Finite s1 m1 e1" "b = Finite s2 m2 e2"
  define e where "e = min e1 e2"
  define v where "v = signed s1 (m1 * 2 ^ nat (e1 - e)) + signed (\<not> s2) (m2 * 2 ^ nat (e2 - e))"
  define w where "w = signed s2 (m2 * 2 ^ nat (e2 - e)) + signed (\<not> s1) (m1 * 2 ^ nat (e1 - e))"
  have wv: "w = - v" by (simp add: v_def w_def signed_neg)
  have 1: "a - b = (if v = 0 then Finite (s1 \<and> \<not> s2) 0 (- 1074) else round_dyadic (v < 0) \<bar>v\<bar> e)"
    by (simp add: ab minus_double_def Let_def v_def e_def)
  have 2: "b - a = (if w = 0 then Finite (s2 \<and> \<not> s1) 0 (- 1074) else round_dyadic (w < 0) \<bar>w\<bar> e)"
    by (simp add: ab minus_double_def Let_def w_def e_def min.commute)
  show ?thesis
  proof (cases "v = 0")
    case True
    then show ?thesis by (simp add: 1 2 wv mirror_def)
  next
    case False
    then have "(w < 0) = (\<not> v < 0)" "\<bar>w\<bar> = \<bar>v\<bar>" using wv by auto
    then show ?thesis using False by (simp add: 1 2 wv mirror_def round_dyadic_neg)
  qed
qed (auto simp: mirror_def minus_double_def)

lemma mirror_fmul: "mirror a b \<Longrightarrow> mirror (a * c) (b * c)"
  unfolding mirror_def times_double_def
proof (elim disjE conjE)
  assume "b = fneg a"
  then show "fmul b c = fneg (fmul a c) \<or> is_zero (fmul a c) \<and> is_zero (fmul b c)"
    by (simp add: fmul_fneg)
next
  assume z: "is_zero a" "is_zero b"
  then obtain s1 e1 s2 e2 where ab: "a = Finite s1 0 e1" "b = Finite s2 0 e2"
    by (cases a; cases b) auto
  show "fmul b c = fneg (fmul a c) \<or> is_zero (fmul a c) \<and> is_zero (fmul b c)"
    by (cases c) (simp_all add: ab round_dyadic_zero)
qed

lemma mirror_float_eq: "mirror a b \<Longrightarrow> is_nan a \<and> is_nan b \<or> float_eq b (- a)"
  unfolding mirror_def uminus_double_def
proof (elim disjE conjE)
  assume "b = fneg a"
  then show "is_nan a \<and> is_nan b \<or> float_eq b (fneg a)"
    by (cases a) (simp_all add: Let_def)
next
  assume "is_zero a" "is_zero b"
  then show "is_nan a \<and> is_nan b \<or> float_eq b (fneg a)"
    by (cases a; cases b) (simp_all add: Let_def signed_def)
qed

section \<open>The calculator\<close>

text \<open>
  Claim C1. For all floats \<open>entry\<close>, \<open>exit\<close>, \<open>s\<close> (the size), \<open>c\<close> (the commission rate) and
  \<open>m\<close> (the multiplier), \<^verbatim>\<open>calculate_pnl\<close> returns \<open>(exit - entry) * s * m - c * s\<close> for the
  direction Long and \<open>(entry - exit) * s * m - c * s\<close> for the direction Short, each
  operation being the float operation, in this order.
\<close>

theorem calculate_pnl_long_short:
  "calculate_pnl entry exit s ''Long'' c m = (exit - entry) * s * m - c * s \<and>
   calculate_pnl entry exit s ''Short'' c m = (entry - exit) * s * m - c * s"
  by (simp add: calculate_pnl_def lower_Long lower_Short)

theorem calculate_pnl_long_short_witness:
  "calculate_pnl (flt 100 0) (flt 110 0) (flt 10 0) ''Long'' (flt 35 (- 2)) (flt 1 0) =
     (flt 110 0 - flt 100 0) * flt 10 0 * flt 1 0 - flt 35 (- 2) * flt 10 0 \<and>
   calculate_pnl (flt 100 0) (flt 110 0) (flt 10 0) ''Short'' (flt 35 (- 2)) (flt 1 0) =
     (flt 100 0 - flt 110 0) * flt 10 0 * flt 1 0 - flt 35 (- 2) * flt 10 0"
  by (rule calculate_pnl_long_short)

text \<open>
  Claim C3. The direction is compared without regard to letter case: two directions with the
  same lower-case form give the same result. A direction whose lower-case form is not
  \<open>long\<close> gives the result of Short.
\<close>

theorem direction_fallback:
  "(lower d \<noteq> ''long'' \<longrightarrow>
      calculate_pnl entry exit s d c m = calculate_pnl entry exit s ''Short'' c m) \<and>
   (lower d = lower d' \<longrightarrow>
      calculate_pnl entry exit s d c m = calculate_pnl entry exit s d' c m)"
  by (simp add: calculate_pnl_def lower_Short)

theorem direction_fallback_witness:
  "lower ''sideways'' \<noteq> ''long'' \<and>
   calculate_pnl (flt 100 0) (flt 110 0) (flt 10 0) ''sideways'' (flt 35 (- 2)) (flt 1 0) =
   calculate_pnl (flt 100 0) (flt 110 0) (flt 10 0) ''Short'' (flt 35 (- 2)) (flt 1 0) \<and>
   lower ''LONG'' = lower ''long'' \<and>
   calculate_pnl (flt 100 0) (flt 110 0) (flt 10 0) ''LONG'' (flt 35 (- 2)) (flt 1 0) =
   calculate_pnl (flt 100 0) (flt 110 0) (flt 10 0) ''long'' (flt 35 (- 2)) (flt 1 0)"
proof -
  have 1: "lower ''sideways'' \<noteq> ''long''" by code_simp
  have 2: "lower ''LONG'' = lower ''long''" by code_simp
  show ?thesis
    using 1 2
      direction_fallback [of "''sideways''" "flt 100 0" "flt 110 0" "flt 10 0" "flt 35 (- 2)"
        "flt 1 0" "''sideways''"]
      direction_fallback [of "''LONG''" "flt 100 0" "flt 110 0" "flt 10 0" "flt 35 (- 2)"
        "flt 1 0" "''long''"]
    by blast
qed

text \<open>
  Claim C7, as stated: the results for Long and Short add up to \<open>- 2 * c * size\<close>. With
  floats they do not: for entry 100.0, exit 110.0, size 1.0, the default rate 0.35 and the
  multiplier 1.0 the results are 9.65 and - 10.35, their sum is - 0.6999999999999993, and
  \<open>- 2 * 0.35 * 1.0\<close> is - 0.7.
\<close>

theorem long_short_sum_counterexample:
  "calculate_pnl (flt 100 0) (flt 110 0) (flt 1 0) ''Long'' (flt 35 (- 2)) (flt 1 0) =
     flt 965 (- 2) \<and>
   calculate_pnl (flt 100 0) (flt 110 0) (flt 1 0) ''Short'' (flt 35 (- 2)) (flt 1 0) =
     flt (- 1035) (- 2) \<and>
   calculate_pnl (flt 100 0) (flt 110 0) (flt 1 0) ''Long'' (flt 35 (- 2)) (flt 1 0) +
   calculate_pnl (flt 100 0) (flt 110 0) (flt 1 0) ''Short'' (flt 35 (- 2)) (flt 1 0) =
     flt (- 6999999999999993) (- 16) \<and>
   flt (- 2) 0 * flt 35 (- 2) * flt 1 0 = flt (- 7) (- 1) \<and>
   \<not> float_eq
       (calculate_pnl (flt 100 0) (flt 110 0) (flt 1 0) ''Long'' (flt 35 (- 2)) (flt 1 0) +
        calculate_pnl (flt 100 0) (flt 110 0) (flt 1 0) ''Short'' (flt 35 (- 2)) (flt 1 0))
       (flt (- 2) 0 * flt 35 (- 2) * flt 1 0)"
  by code_simp

text \<open>
  Claim C7, amended. Both directions subtract the same commission term \<open>c * s\<close>, and the
  gross part of Short is the mirror image of the gross part of Long: both are NaN, or the one
  equals (as floats) the negation of the other.
\<close>

theorem long_short_mirror:
  "calculate_pnl entry exit s ''Long'' c m = (exit - entry) * s * m - c * s \<and>
   calculate_pnl entry exit s ''Short'' c m = (entry - exit) * s * m - c * s \<and>
   (is_nan ((exit - entry) * s * m) \<and> is_nan ((entry - exit) * s * m) \<or>
    float_eq ((entry - exit) * s * m) (- ((exit - entry) * s * m)))"
proof -
  have "mirror ((exit - entry) * s * m) ((entry - exit) * s * m)"
    by (intro mirror_fmul fsub_swap)
  then show ?thesis
    by (simp add: calculate_pnl_def lower_Long lower_Short mirror_float_eq)
qed

theorem long_short_mirror_witness:
  "float_eq ((flt 100 0 - flt 110 0) * flt 1 0 * flt 1 0)
     (- ((flt 110 0 - flt 100 0) * flt 1 0 * flt 1 0))"
proof -
  have "\<not> is_nan ((flt 110 0 - flt 100 0) * flt 1 0 * flt 1 0)"
    by code_simp
  then show ?thesis
    using long_short_mirror [of "flt 100 0" "flt 110 0" "flt 1 0" "flt 35 (- 2)" "flt 1 0"]
    by blast
qed

text \<open>
  Claim C8. \<^verbatim>\<open>calculate_pnl(100, 110, 10, "Long", 0.35)\<close> and
  \<^verbatim>\<open>calculate_pnl(100, 90, 10, "Short", 0.35)\<close>, with the default multiplier, are both the float
  96.5, whose value is exactly \<open>193 / 2\<close>. (The product \<open>0.35 * 10\<close> is half way between two
  doubles and rounds to the even one, 3.5. The integers 100, 110, 90 and 10 of the calls are
  taken as the floats of the same values, which each intermediate result is as well.)
\<close>

theorem spec_examples:
  "calculate_pnl (flt 100 0) (flt 110 0) (flt 10 0) ''Long'' (flt 35 (- 2)) default_multiplier =
     flt 965 (- 1) \<and>
   calculate_pnl (flt 100 0) (flt 90 0) (flt 10 0) ''Short'' (flt 35 (- 2)) default_multiplier =
     flt 965 (- 1) \<and>
   value_of (flt 965 (- 1)) = Some (193 / 2)"
  by code_simp

section \<open>The ledger store\<close>

lemma insort_key_snoc: "f y < f x \<Longrightarrow> insort_key f y (ys @ [x]) = insort_key f y ys @ [x]"
  by (induction ys) auto

lemma sort_key_snoc:
  "\<forall>y\<in>set xs. f y < f x \<Longrightarrow> sort_key f (xs @ [x]) = sort_key f xs @ [x]"
proof (induction xs)
  case Nil
  then show ?case by simp
next
  case (Cons a xs)
  then have "sort_key f (xs @ [x]) = sort_key f xs @ [x]" by simp
  moreover have "f a < f x" using Cons.prems by simp
  ultimately show ?case by (simp add: insort_key_snoc)
qed

text \<open>The id given to a new row is larger than every id in the table.\<close>

lemma next_id_greater: "r \<in> set tbl \<Longrightarrow> trade_id r < next_id tbl"
proof -
  assume r: "r \<in> set tbl"
  then have "tbl \<noteq> []" by auto
  moreover have "trade_id r \<le> Max (set (map trade_id tbl))" using r by (intro Max_ge) auto
  ultimately show ?thesis by (simp add: next_id_def)
qed

lemma next_id_fresh: "next_id tbl \<notin> trade_id ` set tbl"
  using next_id_greater by fastforce

lemma select_history_ids:
  "map fst (select_history tbl) = rev (map trade_id (sort_key trade_id tbl))"
  by (simp add: select_history_def summary_of_def rev_map comp_def)

lemma select_history_sorted: "sorted_wrt (\<lambda>a b. b \<le> a) (map fst (select_history tbl))"
  by (simp add: select_history_ids sorted_wrt_rev)

lemma select_history_set: "set (select_history tbl) = summary_of ` set tbl"
  by (simp add: select_history_def)

lemma select_history_length: "length (select_history tbl) = length tbl"
  by (simp add: select_history_def)

lemma select_history_insert:
  "select_history (insert_trade tbl data entry exit s d p c) =
   summary_of (last (insert_trade tbl data entry exit s d p c)) # select_history tbl"
proof -
  obtain row where row: "insert_trade tbl data entry exit s d p c = tbl @ [row]"
    and id: "trade_id row = next_id tbl"
    by (simp add: insert_trade_def)
  have "\<forall>y\<in>set tbl. trade_id y < trade_id row" by (simp add: id next_id_greater)
  then have "sort_key trade_id (tbl @ [row]) = sort_key trade_id tbl @ [row]"
    by (rule sort_key_snoc)
  then show ?thesis by (simp add: row select_history_def)
qed

lemma select_history_delete:
  "select_history (filter (\<lambda>r. trade_id r \<noteq> i) tbl) =
   filter (\<lambda>x. fst x \<noteq> i) (select_history tbl)"
proof -
  have "filter (\<lambda>x. fst x \<noteq> i) (select_history tbl) =
        map summary_of (filter (\<lambda>r. trade_id r \<noteq> i) (rev (sort_key trade_id tbl)))"
    by (simp add: select_history_def filter_map comp_def summary_of_def)
  also have "\<dots> = map summary_of (rev (filter (\<lambda>r. trade_id r \<noteq> i) (sort_key trade_id tbl)))"
    by (simp add: rev_filter)
  also have "\<dots> = select_history (filter (\<lambda>r. trade_id r \<noteq> i) tbl)"
    by (simp add: select_history_def filter_sort)
  finally show ?thesis by simp
qed

text \<open>What a successful \<^verbatim>\<open>save_trade\<close> did.\<close>

lemma save_trade_Inr:
  assumes "save_trade st data = Inr (st', dlg)"
  obtains entry exit s where
    "py_float (Entry_Price data) = Inr entry" "py_float (Exit_Price data) = Inr exit"
    "py_float (Position_Size data) = Inr s"
    "st' = st\<lparr>trades := insert_trade (trades st) data entry exit s (Direction data)
             (calculate_pnl entry exit s (Direction data) (commission_per_contract (settings st))
                default_multiplier)
             (commission_per_contract (settings st))\<rparr>"
    "dlg = Showinfo ''Saved'' (Trade_saved (calculate_pnl entry exit s (Direction data)
             (commission_per_contract (settings st)) default_multiplier))"
  using assms by (auto simp: save_trade_def Let_def split: sum.splits)

lemma example_save:
  "save_trade (init_app []) example_form =
   Inr (example_saved, Showinfo ''Saved'' (Trade_saved (flt 193 (- 1))))"
  by code_simp

text \<open>
  Claim C4. In every state the history lists one summary for each row of the table, largest
  id first. Listing after a successful save shows the new record first, followed by the
  earlier list, and the new record has an id, which no earlier row has. After deleting the
  selected id the tree shows the earlier list without the summaries of that id, all others in
  the same order.
\<close>

theorem history_newest_first:
  "sorted_wrt (\<lambda>a b. b \<le> a) (map fst (history_tree (load_history st))) \<and>
   set (history_tree (load_history st)) = summary_of ` set (trades st) \<and>
   length (history_tree (load_history st)) = length (trades st) \<and>
   (save_trade st data = Inr (st', dlg) \<longrightarrow>
      history_tree (load_history st') =
        summary_of (last (trades st')) # history_tree (load_history st) \<and>
      trade_id (last (trades st')) = next_id (trades st) \<and>
      trade_id (last (trades st')) \<notin> trade_id ` set (trades st)) \<and>
   history_tree (delete_trade st (i # sel)) =
     filter (\<lambda>x. fst x \<noteq> i) (history_tree (load_history st)) \<and>
   trades (delete_trade st (i # sel)) = filter (\<lambda>r. trade_id r \<noteq> i) (trades st)"
proof -
  have "history_tree (load_history st') =
          summary_of (last (trades st')) # history_tree (load_history st) \<and>
        trade_id (last (trades st')) = next_id (trades st) \<and>
        trade_id (last (trades st')) \<notin> trade_id ` set (trades st)"
    if "save_trade st data = Inr (st', dlg)"
  proof -
    from that obtain entry exit s p c where
      st': "st' = st\<lparr>trades := insert_trade (trades st) data entry exit s (Direction data) p c\<rparr>"
      by (rule save_trade_Inr)
    have id: "trade_id (last (trades st')) = next_id (trades st)"
      by (simp add: st' insert_trade_def)
    have "trade_id (last (trades st')) \<notin> trade_id ` set (trades st)"
      unfolding id by (rule next_id_fresh)
    moreover have "history_tree (load_history st') =
          summary_of (last (trades st')) # history_tree (load_history st)"
      by (simp add: st' load_history_def select_history_insert)
    ultimately show ?thesis using id by simp
  qed
  moreover have "history_tree (delete_trade st (i # sel)) =
     filter (\<lambda>x. fst x \<noteq> i) (history_tree (load_history st))"
    by (simp add: delete_trade_def load_history_def select_history_delete)
  moreover have "trades (delete_trade st (i # sel)) = filter (\<lambda>r. trade_id r \<noteq> i) (trades st)"
    by (simp add: delete_trade_def load_history_def)
  ultimately show ?thesis
    by (simp add: load_history_def select_history_sorted select_history_set
        select_history_length next_id_fresh)
qed

theorem history_newest_first_witness:
  "save_trade (init_app []) example_form =
     Inr (example_saved, Showinfo ''Saved'' (Trade_saved (flt 193 (- 1)))) \<and>
   history_tree (load_history example_saved) =
     summary_of (last (trades example_saved)) # history_tree (load_history (init_app [])) \<and>
   trade_id (last (trades example_saved)) = next_id (trades (init_app [])) \<and>
   history_tree (load_history example_saved) =
     [(1, ''2024-01-02'', ''ES1'', flt 193 (- 1), flt 35 (- 2))] \<and>
   history_tree (delete_trade example_saved [1]) = []"
proof -
  have 1: "history_tree (load_history example_saved) =
     [(1, ''2024-01-02'', ''ES1'', flt 193 (- 1), flt 35 (- 2))]"
    by code_simp
  have 2: "history_tree (delete_trade example_saved [1]) = []"
    by code_simp
  show ?thesis
    using example_save 1 2
      history_newest_first [of "init_app []" example_form example_saved
        "Showinfo ''Saved'' (Trade_saved (flt 193 (- 1)))" 1 "[]"]
    by simp
qed

text \<open>
  No button press changes a row: a row of the table after the press was there before, or it
  is new and has a new id.
\<close>

lemma step_keeps_rows:
  assumes "r \<in> set (trades (step st ev))"
  shows "r \<in> set (trades st) \<or> trade_id r \<notin> trade_id ` set (trades st)"
proof (cases ev)
  case (Save_trade data)
  show ?thesis
  proof (cases "save_trade st data")
    case (Inl e)
    then show ?thesis using assms by (simp add: Save_trade)
  next
    case (Inr p)
    obtain st' dlg where p: "p = (st', dlg)" by (cases p)
    from Inr p obtain entry exit s q c where
      st': "st' = st\<lparr>trades := insert_trade (trades st) data entry exit s (Direction data) q c\<rparr>"
      by (auto elim: save_trade_Inr)
    show ?thesis
      using assms next_id_fresh [of "trades st"]
      by (auto simp: Save_trade Inr p st' insert_trade_def)
  qed
next
  case Refresh
  then show ?thesis using assms by (simp add: load_history_def)
next
  case (Delete_selected selected)
  then show ?thesis using assms
    by (cases selected) (simp_all add: delete_trade_def load_history_def)
next
  case (Calculate_profit choice calc_entries)
  then show ?thesis using assms
    by (simp add: calculate_profit_def Let_def split: sum.splits)
next
  case (Save_settings s)
  then show ?thesis using assms
    by (simp add: save_settings_def split: sum.splits)
qed

lemma insert_trade_invariant:
  "pnl_invariant (last (insert_trade tbl data entry exit s d
     (calculate_pnl entry exit s d c default_multiplier) c))"
  by (simp add: insert_trade_def pnl_invariant_def)

lemma step_invariant:
  assumes "\<forall>r\<in>set (trades st). pnl_invariant r"
  shows "\<forall>r\<in>set (trades (step st ev)). pnl_invariant r"
proof (cases ev)
  case (Save_trade data)
  show ?thesis
  proof (cases "save_trade st data")
    case (Inl e)
    then show ?thesis using assms by (simp add: Save_trade)
  next
    case (Inr p)
    obtain st' dlg where p: "p = (st', dlg)" by (cases p)
    from Inr p obtain entry exit s where
      st': "st' = st\<lparr>trades := insert_trade (trades st) data entry exit s (Direction data)
             (calculate_pnl entry exit s (Direction data) (commission_per_contract (settings st))
                default_multiplier)
             (commission_per_contract (settings st))\<rparr>"
      by (auto elim: save_trade_Inr)
    show ?thesis
      using assms
      by (auto simp: Save_trade Inr p st' insert_trade_def pnl_invariant_def)
  qed
next
  case Refresh
  then show ?thesis using assms by (simp add: load_history_def)
next
  case (Delete_selected selected)
  then show ?thesis using assms
    by (cases selected) (simp_all add: delete_trade_def load_history_def)
next
  case (Calculate_profit choice calc_entries)
  then show ?thesis using assms
    by (simp add: calculate_profit_def Let_def split: sum.splits)
next
  case (Save_settings s)
  then show ?thesis using assms
    by (simp add: save_settings_def split: sum.splits)
qed

lemma run_invariant:
  "\<forall>r\<in>set (trades st). pnl_invariant r \<Longrightarrow> \<forall>r\<in>set (trades (run st evs)). pnl_invariant r"
  unfolding run_def
proof (induction evs arbitrary: st)
  case Nil
  then show ?case by simp
next
  case (Cons ev evs)
  have "\<forall>r\<in>set (trades (step st ev)). pnl_invariant r"
    using Cons.prems by (rule step_invariant)
  then show ?case using Cons.IH by simp
qed

lemma save_settings_trades: "trades (fst (save_settings st text)) = trades st"
  by (simp add: save_settings_def split: sum.splits)

text \<open>
  Claim C2. A successful save appends one row to the table. The row's commission is the
  global rate at the time of the call, its prices, size and direction are those of the form,
  and its net P&L is the calculator's result for the row's own entry price, exit price,
  position size, direction and commission. Changing the global rate afterwards leaves the
  table as it is; no button press changes a stored row; and a table whose rows all carry the
  calculator's result keeps that property through every sequence of button presses.
\<close>

theorem commission_snapshot:
  "(save_trade st data = Inr (st', dlg) \<longrightarrow>
      trades st' = trades st @ [last (trades st')] \<and>
      trade_commission (last (trades st')) = commission_per_contract (settings st) \<and>
      py_float (Entry_Price data) = Inr (trade_entry_price (last (trades st'))) \<and>
      py_float (Exit_Price data) = Inr (trade_exit_price (last (trades st'))) \<and>
      py_float (Position_Size data) = Inr (trade_position_size (last (trades st'))) \<and>
      trade_direction (last (trades st')) = Direction data \<and>
      trade_pnl_net (last (trades st')) =
        calculate_pnl (trade_entry_price (last (trades st')))
          (trade_exit_price (last (trades st'))) (trade_position_size (last (trades st')))
          (trade_direction (last (trades st'))) (trade_commission (last (trades st')))
          default_multiplier \<and>
      (\<forall>text. trades (fst (save_settings st' text)) = trades st')) \<and>
   (\<forall>ev. \<forall>r\<in>set (trades (step st ev)).
      r \<in> set (trades st) \<or> trade_id r \<notin> trade_id ` set (trades st)) \<and>
   ((\<forall>r\<in>set (trades st). pnl_invariant r) \<longrightarrow>
      (\<forall>evs. \<forall>r\<in>set (trades (run st evs)). pnl_invariant r))"
proof -
  have "trades st' = trades st @ [last (trades st')] \<and>
      trade_commission (last (trades st')) = commission_per_contract (settings st) \<and>
      py_float (Entry_Price data) = Inr (trade_entry_price (last (trades st'))) \<and>
      py_float (Exit_Price data) = Inr (trade_exit_price (last (trades st'))) \<and>
      py_float (Position_Size data) = Inr (trade_position_size (last (trades st'))) \<and>
      trade_direction (last (trades st')) = Direction data \<and>
      trade_pnl_net (last (trades st')) =
        calculate_pnl (trade_entry_price (last (trades st')))
          (trade_exit_price (last (trades st'))) (trade_position_size (last (trades st')))
          (trade_direction (last (trades st'))) (trade_commission (last (trades st')))
          default_multiplier"
    if "save_trade st data = Inr (st', dlg)"
    using that by (elim save_trade_Inr) (simp add: insert_trade_def)
  then show ?thesis
    using step_keeps_rows [of _ st] run_invariant [of st]
    by (simp add: save_settings_trades)
qed

theorem commission_snapshot_witness:
  "save_trade (init_app []) example_form =
     Inr (example_saved, Showinfo ''Saved'' (Trade_saved (flt 193 (- 1)))) \<and>
   trades example_saved = trades (init_app []) @ [last (trades example_saved)] \<and>
   trade_commission (last (trades example_saved)) =
     commission_per_contract (settings (init_app [])) \<and>
   trade_pnl_net (last (trades example_saved)) =
     calculate_pnl (trade_entry_price (last (trades example_saved)))
       (trade_exit_price (last (trades example_saved)))
       (trade_position_size (last (trades example_saved)))
       (trade_direction (last (trades example_saved)))
       (trade_commission (last (trades example_saved))) default_multiplier \<and>
   trades (fst (save_settings example_saved ''1.25'')) = trades example_saved \<and>
   list_all pnl_invariant (trades example_saved) \<and>
   list_all pnl_invariant
     (trades (run example_saved [Save_settings ''1.25'', Save_trade example_form, Refresh]))"
proof -
  have inv: "\<forall>r\<in>set (trades example_saved). pnl_invariant r"
    by code_simp
  have "\<forall>r\<in>set (trades (run example_saved
            [Save_settings ''1.25'', Save_trade example_form, Refresh])). pnl_invariant r"
    using inv
      commission_snapshot [of example_saved example_form example_saved
        "Showinfo ''Saved'' (Trade_saved (flt 193 (- 1)))"]
    by blast
  then show ?thesis
    using example_save inv
      commission_snapshot [of "init_app []" example_form example_saved
        "Showinfo ''Saved'' (Trade_saved (flt 193 (- 1)))"]
    by (simp add: list_all_iff)
qed

text \<open>
  Claim C9. The net P&L stored by the Trade Tracker is computed with the multiplier 1.0,
  whatever instrument the form names: the same form with any other instrument stores the
  same net P&L. The Profit Calculator, where the multipliers are applied, leaves the table as
  it is.
\<close>

theorem saved_pnl_default_multiplier:
  "(save_trade st data = Inr (st', dlg) \<longrightarrow>
      (\<exists>entry exit s.
         py_float (Entry_Price data) = Inr entry \<and> py_float (Exit_Price data) = Inr exit \<and>
         py_float (Position_Size data) = Inr s \<and>
         trade_pnl_net (last (trades st')) =
           calculate_pnl entry exit s (Direction data) (commission_per_contract (settings st))
             (flt 1 0)) \<and>
      trade_instrument (last (trades st')) = Instrument data \<and>
      (\<forall>i. \<exists>st'' dlg'.
         save_trade st (data\<lparr>Instrument := i\<rparr>) = Inr (st'', dlg') \<and>
         trade_instrument (last (trades st'')) = i \<and>
         trade_pnl_net (last (trades st'')) = trade_pnl_net (last (trades st')))) \<and>
   trades (calculate_profit st choice calc_entries) = trades st"
proof -
  have "(\<exists>entry exit s.
         py_float (Entry_Price data) = Inr entry \<and> py_float (Exit_Price data) = Inr exit \<and>
         py_float (Position_Size data) = Inr s \<and>
         trade_pnl_net (last (trades st')) =
           calculate_pnl entry exit s (Direction data) (commission_per_contract (settings st))
             (flt 1 0)) \<and>
      trade_instrument (last (trades st')) = Instrument data \<and>
      (\<forall>i. \<exists>st'' dlg'.
         save_trade st (data\<lparr>Instrument := i\<rparr>) = Inr (st'', dlg') \<and>
         trade_instrument (last (trades st'')) = i \<and>
         trade_pnl_net (last (trades st'')) = trade_pnl_net (last (trades st')))"
    if "save_trade st data = Inr (st', dlg)"
    using that
    by (elim save_trade_Inr)
      (simp add: insert_trade_def save_trade_def Let_def default_multiplier_def)
  moreover have "trades (calculate_profit st choice calc_entries) = trades st"
    by (simp add: calculate_profit_def Let_def split: sum.splits)
  ultimately show ?thesis by blast
qed

theorem saved_pnl_default_multiplier_witness:
  "save_trade (init_app []) example_form =
     Inr (example_saved, Showinfo ''Saved'' (Trade_saved (flt 193 (- 1)))) \<and>
   Instrument example_form = ''ES1'' \<and>
   trade_pnl_net (last (trades example_saved)) = flt 193 (- 1) \<and>
   (\<exists>st'' dlg'.
      save_trade (init_app []) (example_form\<lparr>Instrument := ''AAPL''\<rparr>) = Inr (st'', dlg') \<and>
      trade_instrument (last (trades st'')) = ''AAPL'' \<and>
      trade_pnl_net (last (trades st'')) = trade_pnl_net (last (trades example_saved))) \<and>
   result_label (calculate_profit (init_app []) ''Futures'' example_futures) =
     Net_pnl_text (flt 9993 (- 1)) (flt 35 (- 2))"
proof -
  have 1: "Instrument example_form = ''ES1''" by code_simp
  have 2: "trade_pnl_net (last (trades example_saved)) = flt 193 (- 1)" by code_simp
  have 3: "result_label (calculate_profit (init_app []) ''Futures'' example_futures) =
     Net_pnl_text (flt 9993 (- 1)) (flt 35 (- 2))" by code_simp
  show ?thesis
    using example_save 1 2 3
      saved_pnl_default_multiplier [of "init_app []" example_form example_saved
        "Showinfo ''Saved'' (Trade_saved (flt 193 (- 1)))"]
    by blast
qed

section \<open>The settings form and the Profit Calculator\<close>

text \<open>
  Claim C10. When the text of the commission entry does not parse, \<^verbatim>\<open>save_settings\<close> leaves the
  whole state as it is and shows the error dialog. When it parses, the commission rate becomes
  the parsed float, the other settings and the rest of the state stay as they are, and the
  confirmation is shown.
\<close>

theorem save_settings_atomic:
  "(py_float text = Inl e \<longrightarrow>
      save_settings st text = (st, Showerror ''Error'' Invalid_commission)) \<and>
   (py_float text = Inr v \<longrightarrow>
      commission_per_contract (settings (fst (save_settings st text))) = v \<and>
      text_size (settings (fst (save_settings st text))) = text_size (settings st) \<and>
      dark_mode (settings (fst (save_settings st text))) = dark_mode (settings st) \<and>
      screenshot_folder (settings (fst (save_settings st text))) =
        screenshot_folder (settings st) \<and>
      trades (fst (save_settings st text)) = trades st \<and>
      history_tree (fst (save_settings st text)) = history_tree st \<and>
      result_label (fst (save_settings st text)) = result_label st \<and>
      snd (save_settings st text) = Showinfo ''Saved'' Settings_updated)"
  by (simp add: save_settings_def)

theorem save_settings_atomic_witness:
  "py_float ''abc'' = Inl (ValueError ''abc'') \<and>
   save_settings (init_app []) ''abc'' = (init_app [], Showerror ''Error'' Invalid_commission) \<and>
   py_float ''1.25'' = Inr (flt 125 (- 2)) \<and>
   commission_per_contract (settings (fst (save_settings (init_app []) ''1.25''))) =
     flt 125 (- 2) \<and>
   text_size (settings (fst (save_settings (init_app []) ''1.25''))) =
     text_size (settings (init_app [])) \<and>
   snd (save_settings (init_app []) ''1.25'') = Showinfo ''Saved'' Settings_updated"
proof -
  have 1: "py_float ''abc'' = Inl (ValueError ''abc'')" by code_simp
  have 2: "py_float ''1.25'' = Inr (flt 125 (- 2))" by code_simp
  show ?thesis
    using 1 2
      save_settings_atomic [of "''abc''" "ValueError ''abc''" "init_app []"]
      save_settings_atomic [of "''1.25''" _ "init_app []" "flt 125 (- 2)"]
    by blast
qed

lemma multipliers_table:
  "(case multipliers i of Some m \<Rightarrow> m | None \<Rightarrow> 1) =
   (if i = ''NQ1'' then 20 else if i = ''ES1'' then 50 else if i = ''PL1'' then 50
    else if i = ''CL1'' then 1000 else if i = ''GC1'' then 100 else if i = ''PA1'' then 100
    else 1)"
  by (simp add: multipliers_def)

text \<open>
  Claim C6. For a choice that is neither Stocks nor Forex (the Futures branch), when the five
  entries are there and the three numbers parse, the label shows the calculator's result for
  the multiplier looked up under the upper-cased instrument text: 20 for NQ1, 50 for ES1 and
  PL1, 1000 for CL1, 100 for GC1 and PA1, and 1 for every other symbol. And
  \<^verbatim>\<open>calculate_pnl(4000, 4010, 2, "Long", 1.0, 50)\<close> is 998.
\<close>

theorem futures_multiplier:
  "(choice \<noteq> ''Stocks'' \<and> choice \<noteq> ''Forex'' \<and>
    calc_entries ''Instrument'' = Some v \<and>
    calc_entries ''Direction (Long/Short)'' = Some d \<and>
    calc_entries ''Contracts'' = Some ts \<and> py_float ts = Inr s \<and>
    calc_entries ''Entry Price'' = Some tn \<and> py_float tn = Inr entry \<and>
    calc_entries ''Exit Price'' = Some tx \<and> py_float tx = Inr exit \<longrightarrow>
    result_label (calculate_profit st choice calc_entries) =
      Net_pnl_text
        (calculate_pnl entry exit s d (commission_per_contract (settings st))
           (float_of_int
              (if upper v = ''NQ1'' then 20 else if upper v = ''ES1'' then 50
               else if upper v = ''PL1'' then 50 else if upper v = ''CL1'' then 1000
               else if upper v = ''GC1'' then 100 else if upper v = ''PA1'' then 100
               else 1)))
        (commission_per_contract (settings st))) \<and>
   calculate_pnl (flt 4000 0) (flt 4010 0) (flt 2 0) ''Long'' (flt 1 0) (float_of_int 50) =
     flt 998 0"
proof -
  have "calculate_pnl (flt 4000 0) (flt 4010 0) (flt 2 0) ''Long'' (flt 1 0) (float_of_int 50) =
     flt 998 0"
    by code_simp
  then show ?thesis
    by (simp add: calculate_profit_def profit_pnl_def entry_float_def entry_get_def Let_def
        multipliers_table)
qed

theorem futures_multiplier_witness:
  "example_futures ''Instrument'' = Some ''es1'' \<and> upper ''es1'' = ''ES1'' \<and>
   py_float ''2'' = Inr (flt 2 0) \<and> py_float ''4000'' = Inr (flt 4000 0) \<and>
   py_float ''4010'' = Inr (flt 4010 0) \<and>
   result_label (calculate_profit (init_app []) ''Futures'' example_futures) =
     Net_pnl_text
       (calculate_pnl (flt 4000 0) (flt 4010 0) (flt 2 0) ''Long'' (flt 35 (- 2))
          (float_of_int 50))
       (flt 35 (- 2))"
proof -
  have 1: "''Futures'' \<noteq> ''Stocks'' \<and> ''Futures'' \<noteq> ''Forex'' \<and>
    example_futures ''Instrument'' = Some ''es1'' \<and>
    example_futures ''Direction (Long/Short)'' = Some ''Long'' \<and>
    example_futures ''Contracts'' = Some ''2'' \<and> py_float ''2'' = Inr (flt 2 0) \<and>
    example_futures ''Entry Price'' = Some ''4000'' \<and> py_float ''4000'' = Inr (flt 4000 0) \<and>
    example_futures ''Exit Price'' = Some ''4010'' \<and> py_float ''4010'' = Inr (flt 4010 0)"
    by code_simp
  have 2: "upper ''es1'' = ''ES1''" by code_simp
  have 3: "commission_per_contract (settings (init_app [])) = flt 35 (- 2)"
    by (simp add: init_app_def default_settings_def)
  show ?thesis
    using 1 2 3
      futures_multiplier [of "''Futures''" example_futures "''es1''" "''Long''" "''2''"
        "flt 2 0" "''4000''" "flt 4000 0" "''4010''" "flt 4010 0" "init_app []"]
    by simp
qed

text \<open>
  Claim C5 at the Trade Tracker. With the text \<open>abc\<close> as entry price, \<^verbatim>\<open>float\<close> raises
  \<^verbatim>\<open>ValueError\<close>, the error leaves \<^verbatim>\<open>save_trade\<close> uncaught, and the button press changes nothing
  and shows nothing. The Profit Calculator and the settings form catch the same error and
  show it.
\<close>

theorem save_trade_error_uncaught:
  "save_trade (init_app []) (example_form\<lparr>Entry_Price := ''abc''\<rparr>) = Inl (ValueError ''abc'') \<and>
   step (init_app []) (Save_trade (example_form\<lparr>Entry_Price := ''abc''\<rparr>)) = init_app [] \<and>
   result_label
     (calculate_profit (init_app []) ''Stocks''
        (map_of [(''Position Size'', ''2''), (''Entry Price'', ''abc''),
                 (''Exit Price'', ''4010'')])) =
     Error_text (ValueError ''abc'') \<and>
   snd (save_settings (init_app []) ''abc'') = Showerror ''Error'' Invalid_commission"
  by code_simp

text \<open>
  In general: a text that does not parse makes \<^verbatim>\<open>save_trade\<close> raise, and every error raised
  in the Profit Calculator ends in the label.
\<close>

lemma save_trade_raises:
  "py_float (Entry_Price data) = Inl e \<or>
   py_float (Entry_Price data) = Inr a \<and> py_float (Exit_Price data) = Inl e \<or>
   py_float (Entry_Price data) = Inr a \<and> py_float (Exit_Price data) = Inr b \<and>
   py_float (Position_Size data) = Inl e \<Longrightarrow>
   save_trade st data = Inl e"
  by (auto simp: save_trade_def)

lemma calculate_profit_reports:
  "profit_pnl choice calc_entries (commission_per_contract (settings st)) = Inl e \<Longrightarrow>
   result_label (calculate_profit st choice calc_entries) = Error_text e"
  by (simp add: calculate_profit_def)

section \<open>Examples of the float operations and of \<^verbatim>\<open>float(str)\<close>\<close>

text \<open>Each line is what CPython computes: \<^verbatim>\<open>0.1 + 0.2 == 0.30000000000000004\<close>, and so on.\<close>

lemma float_examples:
  "flt 1 (- 1) + flt 2 (- 1) = flt 30000000000000004 (- 17)"
  "flt 35 (- 2) * flt 10 0 = flt 35 (- 1)"
  "flt 35 (- 2) = Finite False 6305039478318694 (- 54)"
  "flt 1 18 - flt 1 0 = flt 1 18"
  "flt 1 0 - flt 1 0 = Finite False 0 (- 1074)"
  "Infinity False - Infinity False = NaN"
  "float_eq (Finite False 0 (- 1074)) (Finite True 0 (- 1074))"
  "float_of_int 100000 = flt 1 5"
  by code_simp+

lemma py_float_examples:
  "py_float ''0.35'' = Inr (flt 35 (- 2))"
  "py_float '' -1_000.5e-3 '' = Inr (flt (- 10005) (- 4))"
  "py_float ''5.'' = Inr (flt 5 0)"
  "py_float ''.5'' = Inr (flt 5 (- 1))"
  "py_float ''-InF'' = Inr (Infinity True)"
  "py_float ''nan'' = Inr NaN"
  "py_float ''-0'' = Inr (Finite True 0 (- 1074))"
  "py_float [] = Inl (ValueError [])"
  "py_float ''abc'' = Inl (ValueError ''abc'')"
  "py_float ''1._5'' = Inl (ValueError ''1._5'')"
  "py_float ''1e'' = Inl (ValueError ''1e'')"
  "py_float ''.'' = Inl (ValueError ''.'')"
  "py_float ''1,5'' = Inl (ValueError ''1,5'')"
  by code_simp+

lemma string_examples:
  "lower ''LoNg'' = ''long''"
  "lower ''Short'' = ''short''"
  "upper ''es1'' = ''ES1''"
  "strip '' 4010 '' = ''4010''"
  by code_simp+

section \<open>The float operations round to nearest, ties to even\<close>

text \<open>
  The rest of the theory justifies the model of the floats: \<open>ilog2_quot\<close> is the exponent
  of the quotient, \<open>round_quot\<close> returns a double in standard form that is nearest to the
  quotient, and so do the operations built on it.
\<close>

lemma scaled_le_iff:
  assumes "0 < d"
  shows "(if 0 \<le> e then d * 2 ^ nat e \<le> n else d \<le> n * 2 ^ nat (- e)) \<longleftrightarrow>
         (2::rat) powi e \<le> of_int n / of_int d"
proof (cases "0 \<le> e")
  case True
  have "(d * 2 ^ nat e \<le> n) = ((of_int (d * 2 ^ nat e) :: rat) \<le> of_int n)"
    by (simp only: of_int_le_iff)
  also have "\<dots> = ((2::rat) ^ nat e \<le> of_int n / of_int d)"
    using assms by (simp add: pos_le_divide_eq mult.commute)
  finally show ?thesis using True by (simp add: power_int_def)
next
  case False
  have "(d \<le> n * 2 ^ nat (- e)) = ((of_int d :: rat) \<le> of_int (n * 2 ^ nat (- e)))"
    by (simp only: of_int_le_iff)
  also have "\<dots> = (inverse ((2::rat) ^ nat (- e)) \<le> of_int n / of_int d)"
    using assms by (simp add: field_simps)
  also have "inverse ((2::rat) ^ nat (- e)) = 2 powi e"
    using False by (simp add: power_int_def power_one_over inverse_eq_divide)
  finally show ?thesis using False by simp
qed

lemma bitlen_powi:
  assumes "0 < n"
  shows "(2::rat) powi (bitlen n - 1) \<le> of_int n" and "(of_int n :: rat) < 2 powi bitlen n"
proof -
  have b: "2 ^ nat (bitlen n - 1) \<le> n" "n < 2 ^ nat (bitlen n)"
    using bitlen_bounds [OF assms] by auto
  have pos: "1 \<le> bitlen n"
    using assms bitlen_eq_zero_iff [of n] bitlen_nonneg [of n] by linarith
  have "(of_int (2 ^ nat (bitlen n - 1)) :: rat) \<le> of_int n"
    using b(1) by (simp only: of_int_le_iff)
  then show "(2::rat) powi (bitlen n - 1) \<le> of_int n"
    using pos by (simp add: power_int_def)
  have "(of_int n :: rat) < of_int (2 ^ nat (bitlen n))"
    using b(2) by (simp only: of_int_less_iff)
  then show "(of_int n :: rat) < 2 powi bitlen n"
    using pos by (simp add: power_int_def)
qed

lemma ilog2_quot_bounds:
  assumes "0 < n" "0 < d"
  shows "(2::rat) powi ilog2_quot n d \<le> of_int n / of_int d"
    and "of_int n / of_int d < (2::rat) powi (ilog2_quot n d + 1)"
proof -
  define e0 where "e0 = bitlen n - bitlen d"
  define q :: rat where "q = of_int n / of_int d"
  have dpos: "(0::rat) < of_int d" using assms by simp
  have npos: "(0::rat) < of_int n" using assms by simp
  have "q < 2 powi bitlen n / 2 powi (bitlen d - 1)"
    unfolding q_def
    using bitlen_powi [OF assms(1)] bitlen_powi [OF assms(2)] dpos npos
    by (intro frac_less) auto
  moreover have "(2::rat) powi bitlen n / 2 powi (bitlen d - 1) = 2 powi (bitlen n - (bitlen d - 1))"
    by (simp add: power_int_diff)
  moreover have "bitlen n - (bitlen d - 1) = e0 + 1"
    by (simp add: e0_def)
  ultimately have up: "q < 2 powi (e0 + 1)"
    by simp
  have "2 powi (bitlen n - 1) / 2 powi bitlen d < q"
    unfolding q_def
    using bitlen_powi [OF assms(1)] bitlen_powi [OF assms(2)] dpos npos
    by (intro frac_less2) auto
  moreover have "(2::rat) powi (bitlen n - 1) / 2 powi bitlen d = 2 powi (bitlen n - 1 - bitlen d)"
    by (simp add: power_int_diff)
  moreover have "bitlen n - 1 - bitlen d = e0 - 1"
    by (simp add: e0_def)
  ultimately have lo: "2 powi (e0 - 1) < q"
    by simp
  have test: "(if 0 \<le> e0 then d * 2 ^ nat e0 \<le> n else d \<le> n * 2 ^ nat (- e0)) \<longleftrightarrow> 2 powi e0 \<le> q"
    unfolding q_def using assms(2) by (rule scaled_le_iff)
  show "(2::rat) powi ilog2_quot n d \<le> of_int n / of_int d"
    using lo test by (auto simp: ilog2_quot_def Let_def e0_def [symmetric] q_def [symmetric])
  show "of_int n / of_int d < (2::rat) powi (ilog2_quot n d + 1)"
    using up test by (auto simp: ilog2_quot_def Let_def e0_def [symmetric] q_def [symmetric])
qed
lemma round_half_even_div_cases:
  assumes "0 < d"
  obtains "round_half_even_div n d = n div d" "2 * (n mod d) \<le> d"
        "2 * (n mod d) = d \<Longrightarrow> even (n div d)"
  | "round_half_even_div n d = n div d + 1" "d \<le> 2 * (n mod d)"
        "2 * (n mod d) = d \<Longrightarrow> even (n div d + 1)"
  by (cases "2 * (n mod d) < d"; cases "d < 2 * (n mod d)"; cases "even (n div d)")
     (auto simp: round_half_even_div_def Let_def)

text \<open>The rounded quotient is within one half of the quotient, and even when it is a tie.\<close>

lemma round_half_even_div_error:
  assumes "0 < d"
  shows "\<bar>2 * (round_half_even_div n d * d - n)\<bar> \<le> d"
    and "\<bar>2 * (round_half_even_div n d * d - n)\<bar> = d \<Longrightarrow> even (round_half_even_div n d)"
proof -
  have n: "n = (n div d) * d + n mod d" by simp
  have r: "0 \<le> n mod d" "n mod d < d" using assms by simp_all
  show "\<bar>2 * (round_half_even_div n d * d - n)\<bar> \<le> d"
  proof (rule round_half_even_div_cases [OF assms, of n])
    assume a: "round_half_even_div n d = n div d" "2 * (n mod d) \<le> d"
    have "round_half_even_div n d * d - n = - (n mod d)"
      unfolding a(1) using n by linarith
    then show ?thesis using a(2) r by simp
  next
    assume a: "round_half_even_div n d = n div d + 1" "d \<le> 2 * (n mod d)"
    have "round_half_even_div n d * d - n = d - n mod d"
      unfolding a(1) using n by (simp add: algebra_simps)
    then show ?thesis using a(2) r by simp
  qed
  show "even (round_half_even_div n d)" if t: "\<bar>2 * (round_half_even_div n d * d - n)\<bar> = d"
  proof (rule round_half_even_div_cases [OF assms, of n])
    assume a: "round_half_even_div n d = n div d" "2 * (n mod d) = d \<Longrightarrow> even (n div d)"
    have "round_half_even_div n d * d - n = - (n mod d)"
      unfolding a(1) using n by linarith
    then have "2 * (n mod d) = d" using t r by simp
    then show ?thesis using a by simp
  next
    assume a: "round_half_even_div n d = n div d + 1"
      "2 * (n mod d) = d \<Longrightarrow> even (n div d + 1)"
    have "round_half_even_div n d * d - n = d - n mod d"
      unfolding a(1) using n by (simp add: algebra_simps)
    then have "2 * (n mod d) = d" using t r by simp
    then show ?thesis using a by simp
  qed
qed

lemma round_half_even_div_ge:
  assumes "0 < d" "a * d \<le> n"
  shows "a \<le> round_half_even_div n d"
proof -
  have "(a * d) div d \<le> n div d"
    using assms(2) assms(1) by (rule zdiv_mono1)
  then have "a \<le> n div d"
    using assms(1) by simp
  then show ?thesis
    by (auto simp: round_half_even_div_def Let_def)
qed

lemma round_half_even_div_le:
  assumes "0 < d" "n \<le> b * d"
  shows "round_half_even_div n d \<le> b"
proof (cases "n = b * d")
  case True
  then show ?thesis using assms(1) by (simp add: round_half_even_div_def)
next
  case False
  have "n div d < b"
  proof (rule ccontr)
    assume "\<not> n div d < b"
    then have "b * d \<le> (n div d) * d"
      using assms(1) by (simp add: mult_right_mono)
    also have "\<dots> \<le> n"
    proof -
      have "n = (n div d) * d + n mod d" by simp
      moreover have "0 \<le> n mod d" using assms(1) by simp
      ultimately show ?thesis by linarith
    qed
    finally show False using False assms(2) by simp
  qed
  then show ?thesis
    by (auto simp: round_half_even_div_def Let_def)
qed
lemma round_half_even_div_rat:
  assumes "0 < d"
  shows "\<bar>of_int (round_half_even_div n d) - of_int n / of_int d\<bar> \<le> (1 / 2 :: rat)"
    and "\<bar>of_int (round_half_even_div n d) - of_int n / of_int d\<bar> = (1 / 2 :: rat) \<Longrightarrow>
         even (round_half_even_div n d)"
proof -
  define m where "m = round_half_even_div n d"
  define x :: rat where "x = \<bar>of_int m - of_int n / of_int d\<bar>"
  define k where "k = \<bar>2 * (m * d - n)\<bar>"
  have d: "(0::rat) < of_int d" using assms by simp
  have "(of_int m - of_int n / of_int d :: rat) = of_int (m * d - n) / of_int d"
    using d by (simp add: field_simps)
  then have "x = of_int \<bar>m * d - n\<bar> / of_int d"
    unfolding x_def using d by (simp add: abs_divide)
  then have "2 * x * of_int d = 2 * of_int \<bar>m * d - n\<bar>"
    using d by simp
  also have "\<dots> = of_int (2 * \<bar>m * d - n\<bar>)"
    by simp
  also have "2 * \<bar>m * d - n\<bar> = k"
    unfolding k_def using abs_mult [of 2 "m * d - n"] by linarith
  finally have eq: "2 * x * of_int d = of_int k" .
  have k: "k \<le> d" "k = d \<Longrightarrow> even m"
    using round_half_even_div_error [OF assms, of n] unfolding m_def k_def by simp_all
  have "(of_int k :: rat) \<le> of_int d"
    using k(1) by (simp only: of_int_le_iff)
  then have "(2 * x) * of_int d \<le> 1 * of_int d"
    using eq by simp
  then have "2 * x \<le> 1"
    using d by (simp only: mult_le_cancel_right_pos)
  then show "\<bar>of_int (round_half_even_div n d) - of_int n / of_int d\<bar> \<le> (1 / 2 :: rat)"
    unfolding m_def x_def by simp
  show "even (round_half_even_div n d)"
    if "\<bar>of_int (round_half_even_div n d) - of_int n / of_int d\<bar> = (1 / 2 :: rat)"
  proof -
    have "x = 1 / 2" using that unfolding x_def m_def .
    then have "2 * x * of_int d = of_int d" by simp
    then have "(of_int k :: rat) = of_int d"
      unfolding eq .
    then have "k = d"
      by (simp only: of_int_eq_iff)
    then show ?thesis
      using k(2) unfolding m_def by simp
  qed
qed

lemma of_int_le_quot:
  assumes "0 < d"
  shows "((of_int a :: rat) \<le> of_int n / of_int d) = (a * d \<le> n)"
proof -
  have "((of_int a :: rat) \<le> of_int n / of_int d) = ((of_int (a * d) :: rat) \<le> of_int n)"
    using assms by (simp add: pos_le_divide_eq)
  then show ?thesis by (simp only: of_int_le_iff)
qed

lemma quot_le_of_int:
  assumes "0 < d"
  shows "((of_int n / of_int d :: rat) \<le> of_int b) = (n \<le> b * d)"
proof -
  have "((of_int n / of_int d :: rat) \<le> of_int b) = ((of_int n :: rat) \<le> of_int (b * d))"
    using assms by (simp add: pos_divide_le_eq)
  then show ?thesis by (simp only: of_int_le_iff)
qed

text \<open>The quotient that \<open>round_quot\<close> rounds is \<open>n / d\<close> in units of \<open>2 ^ t\<close>.\<close>

lemma scaled_quot:
  assumes "0 < d"
  shows "(if 0 \<le> t then of_int n / of_int (d * 2 ^ nat t)
          else of_int (n * 2 ^ nat (- t)) / of_int d) =
         (of_int n / of_int d :: rat) / 2 powi t"
proof (cases "0 \<le> t")
  case True
  then show ?thesis by (simp add: power_int_def)
next
  case False
  have "(2::rat) powi t = 1 / 2 ^ nat (- t)"
    using False by (simp add: power_int_def power_one_over inverse_eq_divide)
  then show ?thesis using False by simp
qed
text \<open>
  What \<open>round_quot\<close> computes for a positive quotient: a unit \<open>2 ^ t\<close> and a mantissa
  \<open>m\<close>, the nearest integer (ties to even) to the quotient in these units.
\<close>

lemma round_quot_scaled:
  assumes "0 < n" "0 < d"
  obtains t m where
    "- 1074 \<le> t" "0 \<le> m" "m \<le> 2 ^ 53" "t = - 1074 \<or> 2 ^ 52 \<le> m"
    "t = - 1074 \<or> (2::rat) powi (t + 52) \<le> of_int n / of_int d"
    "\<bar>of_int m - (of_int n / of_int d) / 2 powi t\<bar> \<le> (1 / 2 :: rat)"
    "\<bar>of_int m - (of_int n / of_int d) / 2 powi t\<bar> = (1 / 2 :: rat) \<Longrightarrow> even m"
    "\<And>s. round_quot s n d =
       (if 971 < (if m = 2 ^ 53 then t + 1 else t) then Infinity s
        else Finite s (if m = 2 ^ 53 then 2 ^ 52 else m) (if m = 2 ^ 53 then t + 1 else t))"
proof -
  define e where "e = ilog2_quot n d"
  define t where "t = max e (- 1022) - 52"
  define N where "N = (if 0 \<le> t then n else n * 2 ^ nat (- t))"
  define D where "D = (if 0 \<le> t then d * 2 ^ nat t else d)"
  define m where "m = round_half_even_div N D"
  define q :: rat where "q = of_int n / of_int d"
  define x :: rat where "x = q / 2 powi t"
  have D: "0 < D" using assms(2) by (simp add: D_def)
  have N: "0 \<le> N" using assms(1) by (simp add: N_def)
  have x: "of_int N / of_int D = x"
    unfolding x_def q_def N_def D_def using scaled_quot [OF assms(2), of t n]
    by (simp split: if_splits)
  have p: "(0::rat) < 2 powi t" by simp
  have qe: "2 powi e \<le> q" "q < 2 powi (e + 1)"
    unfolding q_def e_def using ilog2_quot_bounds [OF assms] by simp_all
  have t: "- 1074 \<le> t" by (simp add: t_def)
  have m0: "0 \<le> m"
    unfolding m_def using D N by (intro round_half_even_div_ge) simp_all
  have up: "x \<le> of_int (2 ^ 53)"
  proof -
    have "e + 1 \<le> t + 53" by (simp add: t_def)
    then have "(2::rat) powi (e + 1) \<le> 2 powi (t + 53)"
      by (intro power_int_increasing) simp_all
    then have "q \<le> 2 powi (t + 53)" using qe(2) by simp
    also have "(2::rat) powi (t + 53) = 2 powi t * 2 ^ 53"
      by (simp add: power_int_add)
    finally show ?thesis
      unfolding x_def using p by (simp add: pos_divide_le_eq mult.commute)
  qed
  have m1: "m \<le> 2 ^ 53"
    unfolding m_def using D up x quot_le_of_int [OF D, of N "2 ^ 53"]
    by (intro round_half_even_div_le) simp_all
  have m2: "t = - 1074 \<or> 2 ^ 52 \<le> m"
  proof (cases "- 1022 \<le> e")
    case True
    then have "e = t + 52" by (simp add: t_def)
    moreover have "(2::rat) powi (t + 52) = 2 powi t * 2 ^ 52"
      by (simp add: power_int_add)
    ultimately have "2 powi t * 2 ^ 52 \<le> q" using qe(1) by simp
    then have "of_int (2 ^ 52) \<le> x"
      unfolding x_def using p by (simp add: pos_le_divide_eq mult.commute)
    then have "2 ^ 52 * D \<le> N"
      using x of_int_le_quot [OF D, of "2 ^ 52" N] by simp
    then have "2 ^ 52 \<le> m"
      unfolding m_def using D by (intro round_half_even_div_ge) simp_all
    then show ?thesis by simp
  next
    case False
    then show ?thesis by (simp add: t_def)
  qed
  have m3: "t = - 1074 \<or> 2 powi (t + 52) \<le> q"
  proof (cases "- 1022 \<le> e")
    case True
    then have "e = t + 52" by (simp add: t_def)
    then show ?thesis using qe(1) by simp
  next
    case False
    then show ?thesis by (simp add: t_def)
  qed
  have r: "round_quot s n d =
       (if 971 < (if m = 2 ^ 53 then t + 1 else t) then Infinity s
        else Finite s (if m = 2 ^ 53 then 2 ^ 52 else m) (if m = 2 ^ 53 then t + 1 else t))" for s
    using assms(1)
    by (simp add: round_quot_def Let_def e_def [symmetric] t_def [symmetric] m_def N_def D_def)
  note err = round_half_even_div_rat [OF D, of N, unfolded x, folded m_def]
  show ?thesis
    using t m0 m1 m2 m3 err r unfolding x_def q_def by (rule that)
qed

lemma round_quot_is_double:
  assumes "0 \<le> n" "0 < d"
  shows "is_double (round_quot s n d)"
proof (cases "n = 0")
  case True
  then show ?thesis by (simp add: round_quot_def)
next
  case False
  then have "0 < n" using assms(1) by simp
  then obtain t m where
    tm: "- 1074 \<le> t" "0 \<le> m" "m \<le> 2 ^ 53" "t = - 1074 \<or> 2 ^ 52 \<le> m"
    and r: "round_quot s n d =
       (if 971 < (if m = 2 ^ 53 then t + 1 else t) then Infinity s
        else Finite s (if m = 2 ^ 53 then 2 ^ 52 else m) (if m = 2 ^ 53 then t + 1 else t))"
    using assms(2) by (rule round_quot_scaled) blast
  show ?thesis
    unfolding r using tm by auto
qed

lemma round_dyadic_is_double: "0 \<le> m \<Longrightarrow> is_double (round_dyadic s m e)"
  by (simp add: round_dyadic_def round_quot_is_double)

text \<open>The float operations and \<^verbatim>\<open>float(str)\<close> return doubles in standard form.\<close>

lemma fadd_is_double: "is_double a \<Longrightarrow> is_double b \<Longrightarrow> is_double (a + b)"
  by (cases a; cases b) (simp_all add: plus_double_def Let_def round_dyadic_is_double)

lemma fneg_is_double: "is_double a \<Longrightarrow> is_double (- a)"
  by (cases a) (simp_all add: uminus_double_def)

lemma fsub_is_double: "is_double a \<Longrightarrow> is_double b \<Longrightarrow> is_double (a - b)"
  by (cases a; cases b) (simp_all add: minus_double_def Let_def round_dyadic_is_double)

lemma fmul_is_double: "is_double a \<Longrightarrow> is_double b \<Longrightarrow> is_double (a * b)"
  by (cases a; cases b) (simp_all add: times_double_def round_dyadic_is_double)

lemma decimal_is_double: "0 \<le> n \<Longrightarrow> is_double (decimal s n k)"
  by (simp add: decimal_def round_quot_is_double)

lemma flt_is_double: "is_double (flt n k)"
  by (simp add: flt_def decimal_is_double)

lemma float_of_int_is_double: "is_double (float_of_int i)"
  by (simp add: float_of_int_def round_quot_is_double)

lemma calculate_pnl_is_double:
  "is_double entry \<Longrightarrow> is_double exit \<Longrightarrow> is_double s \<Longrightarrow> is_double c \<Longrightarrow> is_double m \<Longrightarrow>
   is_double (calculate_pnl entry exit s d c m)"
  by (simp add: calculate_pnl_def fsub_is_double fmul_is_double)

text \<open>
  A finite result of \<open>round_quot\<close> is within half a unit in the last place of the quotient,
  and its mantissa is even when the quotient is half way between two doubles; an infinite
  result means that the quotient is at least \<open>(2 ^ 53 - 1 / 2) * 2 ^ 971\<close>, half way between
  the largest double and \<open>2 ^ 1024\<close>.
\<close>

lemma round_quot_nearest:
  assumes "0 < n" "0 < d" "round_quot s n d = Finite s' m e"
  shows "s' = s"
    and "\<bar>of_int m * 2 powi e - of_int n / of_int d\<bar> \<le> (2 powi e / 2 :: rat)"
    and "\<bar>of_int m * 2 powi e - of_int n / of_int d\<bar> = (2 powi e / 2 :: rat) \<Longrightarrow> even m"
proof -
  define q :: rat where "q = of_int n / of_int d"
  obtain t m0 where
    tm: "0 \<le> m0" "m0 \<le> 2 ^ 53"
    and err: "\<bar>of_int m0 - q / 2 powi t\<bar> \<le> 1 / 2"
      "\<bar>of_int m0 - q / 2 powi t\<bar> = 1 / 2 \<Longrightarrow> even m0"
    and r: "round_quot s n d =
       (if 971 < (if m0 = 2 ^ 53 then t + 1 else t) then Infinity s
        else Finite s (if m0 = 2 ^ 53 then 2 ^ 52 else m0) (if m0 = 2 ^ 53 then t + 1 else t))"
    unfolding q_def using assms(1,2) by (rule round_quot_scaled) blast
  have p: "(0::rat) < 2 powi t" by simp
  have "of_int m0 * 2 powi t - q = (of_int m0 - q / 2 powi t) * 2 powi t"
    using p by (simp add: field_simps)
  then have abs: "\<bar>of_int m0 * 2 powi t - q\<bar> = \<bar>of_int m0 - q / 2 powi t\<bar> * 2 powi t"
    using p by (simp add: abs_mult)
  have e1: "\<bar>of_int m0 * 2 powi t - q\<bar> \<le> 2 powi t / 2"
    unfolding abs using err(1) p by (simp add: field_simps)
  have e2: "even m0" if "\<bar>of_int m0 * 2 powi t - q\<bar> = 2 powi t / 2"
  proof -
    have "\<bar>of_int m0 - q / 2 powi t\<bar> * 2 powi t = (1 / 2) * 2 powi t"
      using that unfolding abs by simp
    then have "\<bar>of_int m0 - q / 2 powi t\<bar> = 1 / 2"
      using p by (simp only: mult_cancel_right) simp
    then show ?thesis by (rule err(2))
  qed
  show "s' = s"
    using assms(3) unfolding r by (simp split: if_splits)
  show "\<bar>of_int m * 2 powi e - of_int n / of_int d\<bar> \<le> (2 powi e / 2 :: rat)"
  proof (cases "m0 = 2 ^ 53")
    case True
    then have me: "m = 2 ^ 52" "e = t + 1"
      using assms(3) unfolding r by (simp_all split: if_splits)
    have "(of_int m :: rat) * 2 powi e = of_int m0 * 2 powi t"
      unfolding me True by (simp add: power_int_add)
    moreover have "(2::rat) powi t / 2 \<le> 2 powi e / 2"
      unfolding me by (simp add: power_int_add)
    ultimately show ?thesis using e1 unfolding q_def by simp
  next
    case False
    then have "m = m0" "e = t"
      using assms(3) unfolding r by (simp_all split: if_splits)
    then show ?thesis using e1 unfolding q_def by simp
  qed
  show "even m" if tie: "\<bar>of_int m * 2 powi e - of_int n / of_int d\<bar> = (2 powi e / 2 :: rat)"
  proof (cases "m0 = 2 ^ 53")
    case True
    then have "m = 2 ^ 52"
      using assms(3) unfolding r by (simp_all split: if_splits)
    then show ?thesis by simp
  next
    case False
    then have "m = m0" "e = t"
      using assms(3) unfolding r by (simp_all split: if_splits)
    then show ?thesis using e2 tie unfolding q_def by simp
  qed
qed


lemma round_quot_overflow:
  assumes "0 < n" "0 < d" "round_quot s n d = Infinity s'"
  shows "s' = s" and "(2 ^ 53 - 1 / 2) * 2 ^ 971 \<le> (of_int n / of_int d :: rat)"
proof -
  define q :: rat where "q = of_int n / of_int d"
  define c :: rat where "c = 2 ^ 53 - 1 / 2"
  define u :: rat where "u = 2 powi 971"
  obtain t m0 where
    tm: "0 \<le> m0" "m0 \<le> 2 ^ 53" "t = - 1074 \<or> (2::rat) powi (t + 52) \<le> q"
    and err: "\<bar>of_int m0 - q / 2 powi t\<bar> \<le> 1 / 2"
    and r: "round_quot s n d =
       (if 971 < (if m0 = 2 ^ 53 then t + 1 else t) then Infinity s
        else Finite s (if m0 = 2 ^ 53 then 2 ^ 52 else m0) (if m0 = 2 ^ 53 then t + 1 else t))"
    unfolding q_def using assms(1,2) by (rule round_quot_scaled) blast
  show "s' = s"
    using assms(3) unfolding r by (simp split: if_splits)
  have big: "971 < (if m0 = 2 ^ 53 then t + 1 else t)"
    using assms(3) unfolding r by (simp split: if_splits)
  have p: "(0::rat) < 2 powi t" by simp
  have c: "0 \<le> c" "c \<le> 2 powi 53" by (simp_all add: c_def)
  have u: "0 \<le> u" by (simp add: u_def)
  have "c * u \<le> q"
  proof (cases "m0 = 2 ^ 53")
    case True
    then have t: "971 \<le> t" using big by simp
    have "of_int m0 - 1 / 2 \<le> q / 2 powi t"
      using err by linarith
    moreover have "(of_int m0 :: rat) - 1 / 2 = c"
      unfolding True c_def by simp
    ultimately have "c \<le> q / 2 powi t"
      by simp
    then have 1: "c * 2 powi t \<le> q"
      using p by (simp only: pos_le_divide_eq)
    have "u \<le> 2 powi t"
      unfolding u_def using t by (intro power_int_increasing) simp_all
    then have "c * u \<le> c * 2 powi t"
      using c(1) by (rule mult_left_mono)
    then show ?thesis using 1 by (rule order_trans)
  next
    case False
    then have t: "972 \<le> t" using big by simp
    then have 1: "(2::rat) powi (t + 52) \<le> q" using tm(3) by auto
    have "(2::rat) powi (53 + 971) \<le> 2 powi (t + 52)"
      using t by (intro power_int_increasing) simp_all
    moreover have "(2::rat) powi (53 + 971) = 2 powi 53 * u"
      unfolding u_def by (rule power_int_add) simp
    moreover have "c * u \<le> 2 powi 53 * u"
      using c(2) u by (rule mult_right_mono)
    ultimately show ?thesis using 1 by linarith
  qed
  moreover have "u = 2 ^ 971"
    unfolding u_def by (rule power_int_numeral)
  ultimately show "(2 ^ 53 - 1 / 2) * 2 ^ 971 \<le> (of_int n / of_int d :: rat)"
    unfolding c_def q_def by (simp only:)
qed

lemma more_digits_nonneg: "x \<in> set (fst (more_digits s)) \<Longrightarrow> 0 \<le> x"
proof (induction s arbitrary: x rule: more_digits.induct)
  case 1
  then show ?case by simp
next
  case (2 c cs)
  show ?case
  proof (cases "is_digit c")
    case True
    obtain ds r where m: "more_digits cs = (ds, r)" by (cases "more_digits cs")
    have "0 \<le> digit_val c"
      using True by (simp add: is_digit_def digit_val_def Let_def)
    moreover have "0 \<le> y" if "y \<in> set ds" for y
      using "2.IH"(1) [OF True, of y] m that by simp
    ultimately show ?thesis
      using "2.prems" True m by auto
  next
    case False
    show ?thesis
    proof (cases "c = CHR ''_'' \<and> (case cs of d # _ \<Rightarrow> is_digit d | [] \<Rightarrow> False)")
      case True
      then show ?thesis
        using "2.prems" False "2.IH"(2) [OF False True, of x] by simp
    next
      case b: False
      then have "more_digits (c # cs) = ([], c # cs)"
        using False by auto
      then show ?thesis
        using "2.prems" by simp
    qed
  qed
qed

lemma digits_value_nonneg:
  assumes "\<forall>x\<in>set ds. 0 \<le> x"
  shows "0 \<le> digits_value ds"
proof -
  have "0 \<le> a \<Longrightarrow> \<forall>x\<in>set ds. 0 \<le> x \<Longrightarrow> 0 \<le> foldl (\<lambda>a d. 10 * a + d) a ds" for a :: int
    by (induction ds arbitrary: a) simp_all
  then show ?thesis using assms by (simp add: digits_value_def)
qed

lemma digitpart_nonneg:
  assumes "digitpart s = Some (ds, r)"
  shows "\<forall>x\<in>set ds. 0 \<le> x"
proof -
  have "more_digits s = (ds, r)"
    using assms
    by (cases s) (simp_all add: digitpart_def del: more_digits.simps split: if_splits)
  then show ?thesis
    using more_digits_nonneg [of _ s] by simp
qed

lemma finish_number_is_double:
  assumes "\<forall>x\<in>set (ip @ fp). 0 \<le> x" "finish_number neg ip fp r = Some x"
  shows "is_double x"
proof -
  obtain ex where "x = decimal neg (digits_value (ip @ fp)) (ex - int (length fp))"
    using assms(2) by (auto simp: finish_number_def split: option.splits)
  then show ?thesis
    using assms(1) by (simp add: decimal_is_double digits_value_nonneg)
qed

lemma parse_number_is_double:
  assumes "parse_number neg s = Some x"
  shows "is_double x"
proof (cases "digitpart s")
  case None
  then obtain fp r where "digitpart (tl s) = Some (fp, r)" "finish_number neg [] fp r = Some x"
    using assms by (auto simp: parse_number_def split: list.splits if_splits option.splits)
  then show ?thesis
    using digitpart_nonneg [of "tl s" fp r] finish_number_is_double [of "[]" fp neg r x]
    by simp
next
  case (Some p)
  obtain ip r where p: "p = (ip, r)" by (cases p)
  have ip: "\<forall>x\<in>set ip. 0 \<le> x"
    using Some p by (auto dest: digitpart_nonneg)
  show ?thesis
  proof (cases "\<exists>r'. r = CHR ''.'' # r' \<and> digitpart r' \<noteq> None")
    case True
    then obtain r' fp r'' where r: "r = CHR ''.'' # r'" "digitpart r' = Some (fp, r'')"
      by auto
    have "finish_number neg ip fp r'' = Some x"
      using assms by (simp add: parse_number_def Some p r)
    moreover have "\<forall>x\<in>set fp. 0 \<le> x"
      using r(2) by (rule digitpart_nonneg)
    ultimately show ?thesis
      using ip finish_number_is_double [of ip fp neg r'' x] by auto
  next
    case False
    then obtain r' where "finish_number neg ip [] r' = Some x"
      using assms
      by (auto simp: parse_number_def Some p split: list.splits if_splits option.splits)
    then show ?thesis
      using ip finish_number_is_double [of ip "[]" neg r' x] by simp
  qed
qed

lemma py_float_is_double:
  assumes "py_float s = Inr x"
  shows "is_double x"
proof -
  obtain neg body where nb: "parse_sign (strip s) = (neg, body)"
    by (cases "parse_sign (strip s)")
  show ?thesis
  proof (cases "parse_number neg body")
    case None
    then show ?thesis
      using assms by (auto simp: py_float_def nb Let_def split: if_splits)
  next
    case (Some d)
    then have "is_double d" by (rule parse_number_is_double)
    then show ?thesis
      using assms Some by (auto simp: py_float_def nb Let_def split: if_splits)
  qed
qed

lemma dyadic_quot:
  "(if 0 \<le> e then of_int (m * 2 ^ nat e) / of_int 1 else of_int m / of_int (2 ^ nat (- e))) =
   (of_int m * 2 powi e :: rat)"
proof (cases "0 \<le> e")
  case True
  then show ?thesis by (simp add: power_int_def)
next
  case False
  have "(2::rat) powi e = 1 / 2 ^ nat (- e)"
    using False by (simp add: power_int_def power_one_over inverse_eq_divide)
  then show ?thesis using False by simp
qed

text \<open>
  \<open>round_dyadic s m e\<close> is a double nearest to \<open>m * 2 ^ e\<close>: a finite result differs from it
  by at most half a unit in the last place.
\<close>

lemma round_dyadic_nearest:
  assumes "0 < m" "round_dyadic s m e = Finite s' m' e'"
  shows "s' = s" and "\<bar>of_int m' * 2 powi e' - of_int m * 2 powi e\<bar> \<le> (2 powi e' / 2 :: rat)"
proof -
  define n where "n = (if 0 \<le> e then m * 2 ^ nat e else m)"
  define d :: int where "d = (if 0 \<le> e then 1 else 2 ^ nat (- e))"
  have n: "0 < n" and d: "0 < d"
    using assms(1) by (simp_all add: n_def d_def)
  have r: "round_quot s n d = Finite s' m' e'"
    using assms(2) by (simp add: round_dyadic_def n_def d_def split: if_splits)
  have q: "(of_int n / of_int d :: rat) = of_int m * 2 powi e"
    using dyadic_quot [of e m] by (simp add: n_def d_def split: if_splits)
  show "s' = s"
    using n d r by (rule round_quot_nearest)
  show "\<bar>of_int m' * 2 powi e' - of_int m * 2 powi e\<bar> \<le> (2 powi e' / 2 :: rat)"
    using round_quot_nearest(2) [OF n d r] unfolding q .
qed

text \<open>
  The product of two finite floats is the exact product of their values, rounded; their sum is
  the exact sum, rounded.
\<close>

lemma fmul_nearest:
  assumes "0 < m1" "0 < m2" "Finite s1 m1 e1 * Finite s2 m2 e2 = Finite s m e"
  shows "s = (s1 \<noteq> s2)"
    and "\<bar>of_int m * 2 powi e - (of_int m1 * 2 powi e1) * (of_int m2 * 2 powi e2)\<bar> \<le>
         (2 powi e / 2 :: rat)"
proof -
  have r: "round_dyadic (s1 \<noteq> s2) (m1 * m2) (e1 + e2) = Finite s m e"
    using assms(3) by (simp add: times_double_def)
  have pos: "0 < m1 * m2" using assms(1,2) by simp
  have eq: "(of_int (m1 * m2) :: rat) * 2 powi (e1 + e2) =
        (of_int m1 * 2 powi e1) * (of_int m2 * 2 powi e2)"
    by (simp add: power_int_add)
  show "\<bar>of_int m * 2 powi e - (of_int m1 * 2 powi e1) * (of_int m2 * 2 powi e2)\<bar> \<le>
         (2 powi e / 2 :: rat)"
    using round_dyadic_nearest(2) [OF pos r] unfolding eq .
  show "s = (s1 \<noteq> s2)"
    using round_dyadic_nearest(1) [OF pos r] .
qed

lemma signed_powi:
  "e0 \<le> e1 \<Longrightarrow> (of_int (signed s (m * 2 ^ nat (e1 - e0))) :: rat) * 2 powi e0 =
   of_int (signed s m) * 2 powi e1"
proof -
  assume "e0 \<le> e1"
  then have "(2::rat) powi e1 = 2 ^ nat (e1 - e0) * 2 powi e0"
    using power_int_add [of "2::rat" "e1 - e0" e0] by (simp add: power_int_def)
  then show ?thesis by (simp add: signed_def)
qed

lemma fadd_nearest:
  assumes "Finite s1 m1 e1 + Finite s2 m2 e2 = Finite s m e" "m \<noteq> 0"
  shows "\<bar>of_int m * 2 powi e -
          \<bar>of_int (signed s1 m1) * 2 powi e1 + of_int (signed s2 m2) * 2 powi e2\<bar>\<bar> \<le>
         (2 powi e / 2 :: rat)"
    and "s = (of_int (signed s1 m1) * 2 powi e1 + of_int (signed s2 m2) * 2 powi e2 < (0::rat))"
proof -
  define e0 where "e0 = min e1 e2"
  define v where "v = signed s1 (m1 * 2 ^ nat (e1 - e0)) + signed s2 (m2 * 2 ^ nat (e2 - e0))"
  define x :: rat where
    "x = of_int (signed s1 m1) * 2 powi e1 + of_int (signed s2 m2) * 2 powi e2"
  have v: "v \<noteq> 0"
    using assms by (auto simp: plus_double_def Let_def v_def e0_def)
  then have r: "round_dyadic (v < 0) \<bar>v\<bar> e0 = Finite s m e"
    using assms(1) by (simp add: plus_double_def Let_def v_def e0_def)
  have pos: "0 < \<bar>v\<bar>" using v by simp
  have "of_int v * 2 powi e0 = x"
    unfolding v_def x_def
    using signed_powi [of e0 e1 s1 m1] signed_powi [of e0 e2 s2 m2]
    by (simp add: e0_def algebra_simps)
  moreover have p: "(0::rat) < 2 powi e0" by simp
  ultimately have x: "of_int \<bar>v\<bar> * 2 powi e0 = \<bar>x\<bar>" "(v < 0) = (x < 0)"
    using less_imp_le [OF p] not_less [of "2 powi e0" "0::rat"]
    by (auto simp: abs_mult mult_less_0_iff)
  show "\<bar>of_int m * 2 powi e - \<bar>x\<bar>\<bar> \<le> (2 powi e / 2 :: rat)"
    using round_dyadic_nearest(2) [OF pos r] unfolding x(1) .
  show "s = (x < 0)"
    using round_dyadic_nearest(1) [OF pos r] x(2) by simp
qed

end
